theory Spec2Isabelle
  imports Complex_Main "HOL-Library.Signed_Division"
begin

section \<open>Conventions of the embedding\<close>

text \<open>
  The Go sources are embedded function by function.

  \<^item> Go's \<^verbatim>\<open>int\<close> is modelled as \<^typ>\<open>int\<close>; the integer remainder \<^verbatim>\<open>%\<close> and the
    integer division \<^verbatim>\<open>/\<close> of Go truncate towards zero, which is \<open>smod\<close> and \<open>sdiv\<close>.
    Where the library's duration arithmetic can leave 64 bits the wrap-around is written
    out (\<open>wrap64\<close> below).
  \<^item> Go's \<^verbatim>\<open>float64\<close> is modelled as \<^typ>\<open>real\<close>: rounding, infinities and NaN are
    outside the model, and the theorems speak about the arithmetic the code writes down.
  \<^item> A run-time panic of Go (index out of range, integer division by zero, a negative
    length given to \<^verbatim>\<open>make\<close>) is a value \<open>Inl\<close> of the result type.
  \<^item> A method with a pointer receiver takes the receiver's state and returns the new one.
  \<^item> A \<^verbatim>\<open>Stream(samples)\<close> method first lets its upstream fill \<^verbatim>\<open>samples[0..n)\<close> and
    then works on these \<open>n\<close> frames. The model of a stage receives exactly these
    \<open>n\<close> frames as a list; the rest of the caller's slice is not touched by any stage.
  \<^item> Mutexes and the speaker lock are not modelled: every operation runs alone.
\<close>

datatype panic = IndexOutOfRange | DivideByZero | MakeSliceLenOutOfRange

type_synonym frame = "real \<times> real"

section \<open>The visualization tap (ring buffer)\<close>

record Tap =
  tap_buf :: "real list"
  tap_pos :: int
  tap_size :: int

definition NewTap :: "int \<Rightarrow> panic + Tap" where
  "NewTap bufSize =
     (if bufSize < 0 then Inl MakeSliceLenOutOfRange
      else Inr \<lparr>tap_buf = replicate (nat bufSize) 0, tap_pos = 0, tap_size = bufSize\<rparr>)"

text \<open>The mono mix that \<^verbatim>\<open>Tap.Stream\<close> stores for one frame.\<close>

definition downmix :: "frame \<Rightarrow> real" where
  "downmix s = (fst s + snd s) / 2"

text \<open>
  \<^verbatim>\<open>Tap.Stream\<close>: for each of the \<open>n\<close> frames, \<^verbatim>\<open>t.buf[t.pos] = (l + r) / 2\<close> and then
  \<^verbatim>\<open>t.pos = (t.pos + 1) % t.size\<close>. The frames themselves pass through unchanged.
\<close>

fun Tap_Stream :: "Tap \<Rightarrow> frame list \<Rightarrow> panic + Tap" where
  "Tap_Stream t [] = Inr t"
| "Tap_Stream t (s # ss) =
     (if tap_pos t < 0 \<or> int (length (tap_buf t)) \<le> tap_pos t then Inl IndexOutOfRange
      else if tap_size t = 0 then Inl DivideByZero
      else Tap_Stream
             (t\<lparr>tap_buf := (tap_buf t)[nat (tap_pos t) := downmix s],
                tap_pos := (tap_pos t + 1) smod tap_size t\<rparr>) ss)"

text \<open>
  \<^verbatim>\<open>Tap.Samples\<close>: clamp \<open>n\<close> to the size, allocate \<open>n\<close> values, compute
  \<^verbatim>\<open>start := (t.pos - n + t.size) % t.size\<close> and read \<^verbatim>\<open>t.buf[(start+i) % t.size]\<close> for
  \<open>i < n\<close>. The receiver is returned next to the result, so that a write to it would show.
\<close>

definition Tap_Samples :: "Tap \<Rightarrow> int \<Rightarrow> panic + (Tap \<times> real list)" where
  "Tap_Samples t n0 =
     (let n = (if n0 > tap_size t then tap_size t else n0) in
      if n < 0 then Inl MakeSliceLenOutOfRange
      else if tap_size t = 0 then Inl DivideByZero
      else
        let start = (tap_pos t - n + tap_size t) smod tap_size t;
            idx = map (\<lambda>i. (start + int i) smod tap_size t) [0..<nat n]
        in if list_ex (\<lambda>j. j < 0 \<or> int (length (tap_buf t)) \<le> j) idx
           then Inl IndexOutOfRange
           else Inr (t, map (\<lambda>j. tap_buf t ! nat j) idx))"

text \<open>A tap as built by \<^verbatim>\<open>NewTap\<close> with a positive size and fed \<open>fs\<close> afterwards.\<close>

definition tap_after :: "int \<Rightarrow> frame list \<Rightarrow> panic + Tap" where
  "tap_after cap fs = (case NewTap cap of Inl e \<Rightarrow> Inl e | Inr t \<Rightarrow> Tap_Stream t fs)"

text \<open>
  The written history of such a tap, oldest first: the zeros \<^verbatim>\<open>make\<close> put into the
  buffer, then the mono mix of every frame written.
\<close>

definition history :: "int \<Rightarrow> frame list \<Rightarrow> real list" where
  "history cap fs = replicate (nat cap) 0 @ map downmix fs"

text \<open>The last \<open>n\<close> elements of a list.\<close>

definition lastn :: "nat \<Rightarrow> 'a list \<Rightarrow> 'a list" where
  "lastn n xs = drop (length xs - n) xs"

subsection \<open>The ring invariant\<close>

definition tap_wf :: "Tap \<Rightarrow> bool" where
  "tap_wf t \<longleftrightarrow> 0 < tap_size t \<and> int (length (tap_buf t)) = tap_size t
     \<and> 0 \<le> tap_pos t \<and> tap_pos t < tap_size t"

text \<open>The buffer read from the cursor on: the oldest slot first.\<close>

definition chron :: "Tap \<Rightarrow> real list" where
  "chron t = drop (nat (tap_pos t)) (tap_buf t) @ take (nat (tap_pos t)) (tap_buf t)"

lemma smod_nonneg: "0 \<le> a \<Longrightarrow> 0 < b \<Longrightarrow> (a::int) smod b = a mod b"
  by (simp add: smod_int_alt_def sgn_if)

lemma chron_length: "length (chron t) = length (tap_buf t)"
  by (simp add: chron_def)

lemma write_wf:
  assumes "tap_wf t"
  shows "tap_wf (t\<lparr>tap_buf := (tap_buf t)[nat (tap_pos t) := x],
                  tap_pos := (tap_pos t + 1) smod tap_size t\<rparr>)"
  using assms by (simp add: tap_wf_def smod_nonneg)

lemma write_chron:
  assumes "tap_wf t"
  shows "chron (t\<lparr>tap_buf := (tap_buf t)[nat (tap_pos t) := x],
                  tap_pos := (tap_pos t + 1) smod tap_size t\<rparr>) = tl (chron t) @ [x]"
proof -
  let ?p = "nat (tap_pos t)"
  let ?b = "tap_buf t"
  from assms have p: "?p < length ?b" and sz: "tap_size t = int (length ?b)"
    and p0: "0 \<le> tap_pos t"
    by (auto simp: tap_wf_def)
  have old: "tl (chron t) = drop (Suc ?p) ?b @ take ?p ?b"
    using p by (simp add: chron_def drop_Suc tl_drop)
  show ?thesis
  proof (cases "Suc ?p < length ?b")
    case True
    then have "tap_pos t + 1 < tap_size t" using p0 sz by linarith
    then have "(tap_pos t + 1) smod tap_size t = tap_pos t + 1"
      using p0 by (simp add: smod_nonneg)
    moreover have "nat (tap_pos t + 1) = Suc ?p" using p0 by simp
    ultimately show ?thesis
      using p True old by (simp add: chron_def take_Suc_conv_app_nth)
  next
    case False
    with p have e: "Suc ?p = length ?b" by simp
    then have "tap_pos t + 1 = tap_size t" using sz p0 by simp
    then have "(tap_pos t + 1) smod tap_size t = 0"
      using p0 by (simp add: smod_nonneg)
    moreover have "?b[?p := x] = take ?p ?b @ [x]"
      using e p by (metis Suc_eq_plus1 drop_all le_refl upd_conv_take_nth_drop
          add.commute plus_1_eq_Suc)
    ultimately show ?thesis
      using old e by (simp add: chron_def)
  qed
qed

lemma Tap_Stream_wf:
  "tap_wf t \<Longrightarrow>
     \<exists>t'. Tap_Stream t fs = Inr t' \<and> tap_wf t' \<and> tap_size t' = tap_size t
       \<and> chron t' = drop (length fs) (chron t @ map downmix fs)"
proof (induction fs arbitrary: t)
  case Nil
  then show ?case by simp
next
  case (Cons s ss)
  let ?t1 = "t\<lparr>tap_buf := (tap_buf t)[nat (tap_pos t) := downmix s],
                tap_pos := (tap_pos t + 1) smod tap_size t\<rparr>"
  have wf1: "tap_wf ?t1" by (rule write_wf [OF Cons.prems])
  have ch1: "chron ?t1 = tl (chron t) @ [downmix s]" by (rule write_chron [OF Cons.prems])
  from Cons.IH [OF wf1] obtain t' where
    t': "Tap_Stream ?t1 ss = Inr t'" "tap_wf t'" "tap_size t' = tap_size ?t1"
      "chron t' = drop (length ss) (chron ?t1 @ map downmix ss)"
    by blast
  have ne: "chron t \<noteq> []"
    using Cons.prems by (auto simp: tap_wf_def chron_def)
  have step: "Tap_Stream t (s # ss) = Tap_Stream ?t1 ss"
    using Cons.prems by (simp add: tap_wf_def)
  have "drop (length ss) (chron ?t1 @ map downmix ss)
      = drop (length (s # ss)) (chron t @ map downmix (s # ss))"
    using ne ch1 by (cases "chron t") simp_all
  with t' step show ?case by simp
qed

lemma mod_wrap: "b \<le> a \<Longrightarrow> a - b < b \<Longrightarrow> (a::int) mod b = a - b"
proof -
  assume "b \<le> a" "a - b < b"
  then have "(a - b) mod b = a - b" by (intro mod_pos_pos_trivial) simp_all
  then show ?thesis by (simp only: minus_mod_self2)
qed

lemma chron_nth:
  assumes "tap_wf t" "k < length (tap_buf t)"
  shows "chron t ! k = tap_buf t ! nat ((tap_pos t + int k) mod tap_size t)"
proof -
  let ?p = "nat (tap_pos t)"
  let ?b = "tap_buf t"
  from assms have p: "?p < length ?b" and sz: "tap_size t = int (length ?b)"
    and p0: "0 \<le> tap_pos t"
    by (auto simp: tap_wf_def)
  show ?thesis
  proof (cases "k < length ?b - ?p")
    case True
    then have "tap_pos t + int k < tap_size t" using sz p0 by linarith
    then have "(tap_pos t + int k) mod tap_size t = tap_pos t + int k"
      using p0 by simp
    moreover have "nat (tap_pos t + int k) = ?p + k" using p0 by linarith
    ultimately show ?thesis using True p by (simp add: chron_def nth_append)
  next
    case False
    then have ge: "tap_size t \<le> tap_pos t + int k" using sz p0 by linarith
    have lt: "tap_pos t + int k - tap_size t < tap_size t"
      using assms(2) p sz p0 by linarith
    have m: "(tap_pos t + int k) mod tap_size t = tap_pos t + int k - tap_size t"
      using ge lt by (rule mod_wrap)
    have j: "nat (tap_pos t + int k - tap_size t) = k - (length ?b - ?p)"
      using sz p0 False p by linarith
    have "k - (length ?b - ?p) < ?p" using assms(2) False p by linarith
    then have "take ?p ?b ! (k - (length ?b - ?p)) = ?b ! (k - (length ?b - ?p))"
      by (rule nth_take)
    with m j False p show ?thesis by (simp add: chron_def nth_append)
  qed
qed

lemma Tap_Samples_wf:
  assumes wf: "tap_wf t" and n0: "0 \<le> n" and n1: "n \<le> tap_size t"
  shows "Tap_Samples t n = Inr (t, lastn (nat n) (chron t))"
proof -
  let ?sz = "tap_size t"
  let ?start = "(tap_pos t - n + ?sz) smod ?sz"
  let ?idx = "map (\<lambda>i. (?start + int i) smod ?sz) [0..<nat n]"
  from wf have sz: "0 < ?sz" and len: "int (length (tap_buf t)) = ?sz"
    and p0: "0 \<le> tap_pos t" and p1: "tap_pos t < ?sz"
    by (auto simp: tap_wf_def)
  have start: "?start = (tap_pos t - n + ?sz) mod ?sz"
    using p0 n1 sz by (simp add: smod_nonneg)
  have start0: "0 \<le> ?start" using sz by (simp add: start)
  have ix: "(?start + int i) smod ?sz = (tap_pos t + (?sz - n + int i)) mod ?sz" for i
  proof -
    have "(?start + int i) smod ?sz = (?start + int i) mod ?sz"
      using start0 sz by (simp add: smod_nonneg)
    also have "\<dots> = ((tap_pos t - n + ?sz) + int i) mod ?sz"
      by (simp only: start mod_add_left_eq)
    finally show ?thesis by (simp add: algebra_simps)
  qed
  have bnd: "0 \<le> x mod ?sz \<and> x mod ?sz < ?sz" for x
    using sz by simp
  have inr: "\<not> list_ex (\<lambda>j. j < 0 \<or> int (length (tap_buf t)) \<le> j) ?idx"
    using bnd by (auto simp: list_ex_iff ix len not_less [symmetric] simp del: of_nat_add)
  have eq: "map (\<lambda>j. tap_buf t ! nat j) ?idx = lastn (nat n) (chron t)"
  proof (rule nth_equalityI)
    show "length (map (\<lambda>j. tap_buf t ! nat j) ?idx) = length (lastn (nat n) (chron t))"
      using n0 n1 len by (simp add: lastn_def chron_length)
  next
    fix i assume "i < length (map (\<lambda>j. tap_buf t ! nat j) ?idx)"
    then have i: "i < nat n" by simp
    let ?k = "length (tap_buf t) - nat n + i"
    have k: "?k < length (tap_buf t)" using i n1 len by linarith
    have ik: "int ?k = ?sz - n + int i" using i n1 n0 len by linarith
    have "lastn (nat n) (chron t) ! i = chron t ! ?k"
      using i n1 len by (simp add: lastn_def chron_length)
    also have "\<dots> = tap_buf t ! nat ((tap_pos t + int ?k) mod ?sz)"
      by (rule chron_nth [OF wf k])
    finally show "map (\<lambda>j. tap_buf t ! nat j) ?idx ! i = lastn (nat n) (chron t) ! i"
      using i by (simp add: ix ik del: of_nat_add)
  qed
  show ?thesis
    unfolding Tap_Samples_def Let_def using n0 n1 sz inr eq by simp
qed

lemma NewTap_wf:
  "0 < cap \<Longrightarrow> \<exists>t. NewTap cap = Inr t \<and> tap_wf t \<and> tap_size t = cap \<and> chron t = replicate (nat cap) 0"
  by (simp add: NewTap_def tap_wf_def chron_def)

lemma tap_after_wf:
  assumes "0 < cap"
  shows "\<exists>t. tap_after cap fs = Inr t \<and> tap_wf t \<and> tap_size t = cap
     \<and> chron t = lastn (nat cap) (history cap fs)"
proof -
  from NewTap_wf [OF assms] obtain t0 where
    t0: "NewTap cap = Inr t0" "tap_wf t0" "tap_size t0 = cap" "chron t0 = replicate (nat cap) 0"
    by blast
  from Tap_Stream_wf [OF t0(2), of fs] obtain t where
    t: "Tap_Stream t0 fs = Inr t" "tap_wf t" "tap_size t = tap_size t0"
       "chron t = drop (length fs) (chron t0 @ map downmix fs)"
    by blast
  show ?thesis using t0 t by (simp add: tap_after_def history_def lastn_def)
qed

lemma lastn_lastn: "n \<le> m \<Longrightarrow> lastn n (lastn m xs) = lastn n xs"
proof -
  assume "n \<le> m"
  then have "length xs - (length xs - m + n) + (length xs - m) = length xs - n"
    by arith
  then show ?thesis by (simp add: lastn_def)
qed

lemma lastn_history:
  "n \<le> length fs \<Longrightarrow> lastn n (history cap fs) = map downmix (lastn n fs)"
  by (simp add: lastn_def history_def drop_map)

lemma Tap_Stream_append:
  "Tap_Stream t (fs @ gs) = (case Tap_Stream t fs of Inl e \<Rightarrow> Inl e | Inr t' \<Rightarrow> Tap_Stream t' gs)"
  by (induction fs arbitrary: t) simp_all

subsection \<open>Claims about the tap\<close>

text \<open>
  C6. Let a tap be built with a positive capacity and let any frames be written to it
  (in one call of \<^verbatim>\<open>Stream\<close> or in several: \<open>Tap_Stream_append\<close>). For every \<open>n\<close>
  with \<open>0 \<le> n \<le> capacity\<close>, \<^verbatim>\<open>Samples(n)\<close> does not panic, leaves the tap as it was
  and returns exactly \<open>n\<close> values: the last \<open>n\<close> entries of the written history, oldest
  first. Once capacity or more frames have been written, these are exactly the
  \<open>(left + right) / 2\<close> mixes of the last \<open>n\<close> frames, in order.
\<close>

theorem Tap_Samples_last_n:
  assumes "0 < cap" and "0 \<le> n" and "n \<le> cap"
  shows "\<exists>t. tap_after cap fs = Inr t
           \<and> Tap_Samples t n = Inr (t, lastn (nat n) (history cap fs))
           \<and> length (lastn (nat n) (history cap fs)) = nat n
           \<and> (nat cap \<le> length fs \<longrightarrow>
                 lastn (nat n) (history cap fs) = map downmix (lastn (nat n) fs))"
proof -
  from tap_after_wf [OF assms(1), of fs] obtain t where
    t: "tap_after cap fs = Inr t" "tap_wf t" "tap_size t = cap"
       "chron t = lastn (nat cap) (history cap fs)"
    by blast
  have "Tap_Samples t n = Inr (t, lastn (nat n) (chron t))"
    using t assms by (intro Tap_Samples_wf) simp_all
  also have "lastn (nat n) (chron t) = lastn (nat n) (history cap fs)"
    using assms by (simp add: t(4) lastn_lastn)
  finally have s: "Tap_Samples t n = Inr (t, lastn (nat n) (history cap fs))" .
  have l: "length (lastn (nat n) (history cap fs)) = nat n"
    using assms by (simp add: lastn_def history_def)
  have m: "lastn (nat n) (history cap fs) = map downmix (lastn (nat n) fs)"
    if "nat cap \<le> length fs"
    using that assms by (intro lastn_history) simp
  from t(1) s l m show ?thesis by blast
qed

theorem Tap_Samples_last_n_witness:
  "(0::int) < 4 \<and> (0::int) \<le> 3 \<and> (3::int) \<le> 4
   \<and> (\<exists>t. tap_after 4 [(1, 1), (2, 4), (3, 3), (4, 4), (7, 3)] = Inr t
          \<and> Tap_Samples t 3 = Inr (t, [3, 4, 5]))"
  using Tap_Samples_last_n [of 4 3 "[(1, 1), (2, 4), (3, 3), (4, 4), (7, 3)]"]
  by (simp add: lastn_def history_def downmix_def)

text \<open>
  C10. For every \<open>n\<close> greater than the capacity, \<^verbatim>\<open>Samples(n)\<close> neither panics nor
  returns \<open>n\<close> values: it behaves as \<^verbatim>\<open>Samples(capacity)\<close> and returns exactly capacity
  values, the whole buffer read from the cursor on, which is the last capacity entries of
  the written history, oldest first.
\<close>

theorem Tap_Samples_clamps_to_capacity:
  assumes "0 < cap" and "cap < n"
  shows "\<exists>t. tap_after cap fs = Inr t
           \<and> Tap_Samples t n = Inr (t, lastn (nat cap) (history cap fs))
           \<and> Tap_Samples t n = Tap_Samples t cap
           \<and> length (lastn (nat cap) (history cap fs)) = nat cap
           \<and> lastn (nat cap) (history cap fs)
               = drop (nat (tap_pos t)) (tap_buf t) @ take (nat (tap_pos t)) (tap_buf t)"
proof -
  from tap_after_wf [OF assms(1), of fs] obtain t where
    t: "tap_after cap fs = Inr t" "tap_wf t" "tap_size t = cap"
       "chron t = lastn (nat cap) (history cap fs)"
    by blast
  have c: "Tap_Samples t n = Tap_Samples t cap"
    using assms t(3) by (simp add: Tap_Samples_def)
  have "Tap_Samples t cap = Inr (t, lastn (nat cap) (chron t))"
    using t assms by (intro Tap_Samples_wf) simp_all
  also have "lastn (nat cap) (chron t) = lastn (nat cap) (history cap fs)"
    by (simp add: t(4) lastn_lastn)
  finally have s: "Tap_Samples t cap = Inr (t, lastn (nat cap) (history cap fs))" .
  have l: "length (lastn (nat cap) (history cap fs)) = nat cap"
    by (simp add: lastn_def history_def)
  have r: "lastn (nat cap) (history cap fs)
         = drop (nat (tap_pos t)) (tap_buf t) @ take (nat (tap_pos t)) (tap_buf t)"
    using t(4) by (simp add: chron_def)
  from t(1) c s l r show ?thesis by simp
qed

theorem Tap_Samples_clamps_to_capacity_witness:
  "(0::int) < 4 \<and> (4::int) < 9
   \<and> (\<exists>t. tap_after 4 [(1, 1), (2, 4), (3, 3), (4, 4), (7, 3)] = Inr t
          \<and> Tap_Samples t 9 = Inr (t, [3, 3, 4, 5]))"
  using Tap_Samples_clamps_to_capacity [of 4 9 "[(1, 1), (2, 4), (3, 3), (4, 4), (7, 3)]"]
  by (auto simp: lastn_def history_def downmix_def)

section \<open>The spectrum analyzer\<close>

definition numBands :: nat where
  "numBands = 10"

definition fftSize :: nat where
  "fftSize = 2048"

definition bandEdges :: "real list" where
  "bandEdges = [20, 100, 200, 400, 800, 1600, 3200, 6400, 12800, 16000, 20000]"

text \<open>
  The struct \<^verbatim>\<open>Visualizer\<close>: the array \<^verbatim>\<open>prev [numBands]float64\<close> is a list (of length
  \<open>numBands\<close> in every state Go can build), \<^verbatim>\<open>buf\<close> is the slice that
  \<^verbatim>\<open>NewVisualizer\<close> allocates with \<open>fftSize\<close> zeros.
\<close>

record Visualizer =
  v_prev :: "real list"
  v_sr :: real
  v_buf :: "real list"

definition NewVisualizer :: "real \<Rightarrow> Visualizer" where
  "NewVisualizer sampleRate =
     \<lparr>v_prev = replicate numBands 0, v_sr = sampleRate, v_buf = replicate fftSize 0\<rparr>"

text \<open>
  Go's built-ins \<^verbatim>\<open>clear(dst)\<close> and \<^verbatim>\<open>copy(dst, src)\<close> on slices: \<^verbatim>\<open>copy\<close> overwrites the
  first \<open>min (len dst) (len src)\<close> elements of \<open>dst\<close>.
\<close>

definition clear_slice :: "real list \<Rightarrow> real list" where
  "clear_slice dst = replicate (length dst) 0"

definition copy_slice :: "real list \<Rightarrow> real list \<Rightarrow> real list" where
  "copy_slice dst src = take (length dst) src @ drop (length src) dst"

text \<open>
  The Hann window: \<^verbatim>\<open>v.buf[i] *= 0.5 * (1 - cos(2 pi i / (fftSize - 1)))\<close> for every
  \<open>i < fftSize\<close>. (\<open>Analyze\<close> below checks the length first: Go panics at the first
  index past the end of the buffer.)
\<close>

definition hann :: "nat \<Rightarrow> real" where
  "hann i = 0.5 * (1 - cos (2 * pi * real i / real (fftSize - 1)))"

definition hann_window :: "real list \<Rightarrow> real list" where
  "hann_window b = fold (\<lambda>i b. b[i := b ! i * hann i]) [0..<fftSize] b"

text \<open>
  \<^verbatim>\<open>fft.FFTReal\<close> belongs to a library outside the repository; it returns the discrete
  Fourier transform of its input, with as many bins as the input has samples.
\<close>

definition FFTReal :: "real list \<Rightarrow> complex list" where
  "FFTReal x =
     map (\<lambda>k. \<Sum>n\<leftarrow>[0..<length x].
                 complex_of_real (x ! n) * cis (- (2 * pi * real k * real n / real (length x))))
       [0..<length x]"

text \<open>
  Go's conversion \<^verbatim>\<open>int(x)\<close> of a float discards the fraction. For a quotient that does
  not fit an \<^verbatim>\<open>int\<close> (a sample rate of zero among them) Go leaves the result to the
  implementation; the clamps of \<open>band_mean\<close> keep every index that is read inside
  \<open>[1, halfLen - 1]\<close> whatever it is, and no theorem below depends on it.
\<close>

definition go_int :: "real \<Rightarrow> int" where
  "go_int x = (if 0 \<le> x then \<lfloor>x\<rfloor> else \<lceil>x\<rceil>)"

text \<open>
  The first half of the loop body for band \<open>b\<close>: the bin range of the band, the sum of
  the magnitudes \<^verbatim>\<open>cmplx.Abs(spectrum[i])\<close> over it, and the mean when the range is not
  empty.
\<close>

definition band_mean :: "complex list \<Rightarrow> real \<Rightarrow> nat \<Rightarrow> real" where
  "band_mean spectrum binHz b =
     (let loIdx0 = go_int (bandEdges ! b / binHz);
          hiIdx0 = go_int (bandEdges ! (b + 1) / binHz);
          loIdx = (if loIdx0 < 1 then 1 else loIdx0);
          halfLen = int (length spectrum) sdiv 2;
          hiIdx = (if halfLen \<le> hiIdx0 then halfLen - 1 else hiIdx0);
          (msum, count) = foldl (\<lambda>(msum, count) i. (msum + cmod (spectrum ! nat i), count + 1))
                           (0, 0 :: int) [loIdx..hiIdx]
      in if 0 < count then msum / real_of_int count else msum)"

text \<open>
  The whole loop body for band \<open>b\<close>, on the pair of \<^verbatim>\<open>bands\<close> and \<^verbatim>\<open>v.prev\<close>: the
  logarithmic scale when the mean is positive, the clamp to \<open>[0, 1]\<close>, the smoothing
  against the previous level, and the store into \<^verbatim>\<open>v.prev[b]\<close>.
\<close>

definition band_step ::
  "complex list \<Rightarrow> real \<Rightarrow> nat \<Rightarrow> real list \<times> real list \<Rightarrow> real list \<times> real list" where
  "band_step spectrum binHz b = (\<lambda>(bands, prev).
     let msum = band_mean spectrum binHz b;
         bands1 = (if 0 < msum then bands[b := (20 * log 10 msum + 10) / 50] else bands);
         bands2 = bands1[b := max 0 (min 1 (bands1 ! b))];
         bands3 = (if prev ! b < bands2 ! b
                   then bands2[b := bands2 ! b * 0.6 + prev ! b * 0.4]
                   else bands2[b := bands2 ! b * 0.25 + prev ! b * 0.75])
     in (bands3, prev[b := bands3 ! b]))"

text \<open>The loop body of the empty-input path: \<^verbatim>\<open>bands[b] = v.prev[b] * 0.8; v.prev[b] = bands[b]\<close>.\<close>

definition decay_step :: "nat \<Rightarrow> real list \<times> real list \<Rightarrow> real list \<times> real list" where
  "decay_step b = (\<lambda>(bands, prev).
     let bands1 = bands[b := prev ! b * 0.8] in (bands1, prev[b := bands1 ! b]))"

text \<open>
  \<^verbatim>\<open>Visualizer.Analyze\<close>. It returns the ten band levels and the visualizer with its new
  previous levels and, on the non-empty path, its overwritten buffer.
\<close>

definition Analyze :: "Visualizer \<Rightarrow> real list \<Rightarrow> panic + (real list \<times> Visualizer)" where
  "Analyze v samples =
     (let bands0 = replicate numBands 0 in
      if length samples = 0 then
        let (bands, prev) = fold decay_step [0..<numBands] (bands0, v_prev v)
        in Inr (bands, v\<lparr>v_prev := prev\<rparr>)
      else
        let buf1 = copy_slice (clear_slice (v_buf v)) samples in
        if length buf1 < fftSize then Inl IndexOutOfRange
        else
          let buf2 = hann_window buf1;
              spectrum = FFTReal buf2;
              binHz = v_sr v / real fftSize;
              (bands, prev) = fold (band_step spectrum binHz) [0..<numBands] (bands0, v_prev v)
          in Inr (bands, v\<lparr>v_prev := prev, v_buf := buf2\<rparr>))"

lemma fold_update_both:
  assumes step: "\<And>b bands prev. b < length bands \<Longrightarrow> b < length prev \<Longrightarrow>
      step b (bands, prev)
      = (bands[b := g b (bands ! b) (prev ! b)], prev[b := g b (bands ! b) (prev ! b)])"
  shows "k \<le> length prev \<Longrightarrow> length bands = length prev \<Longrightarrow>
     fold step [0..<k] (bands, prev)
       = (map (\<lambda>b. g b (bands ! b) (prev ! b)) [0..<k] @ drop k bands,
          map (\<lambda>b. g b (bands ! b) (prev ! b)) [0..<k] @ drop k prev)"
proof (induction k)
  case 0
  then show ?case by simp
next
  case (Suc k)
  let ?A = "map (\<lambda>b. g b (bands ! b) (prev ! b)) [0..<k]"
  have lA: "length ?A = k" by simp
  from Suc.prems have k: "k < length prev" "k < length bands" by simp_all
  have nb: "(?A @ drop k bands) ! k = bands ! k"
    using k lA by (simp add: nth_append)
  have np: "(?A @ drop k prev) ! k = prev ! k"
    using k lA by (simp add: nth_append)
  have ub: "(?A @ drop k bands)[k := x] = ?A @ [x] @ drop (Suc k) bands" for x
    using k lA by (simp add: list_update_append Cons_nth_drop_Suc [symmetric])
  have up: "(?A @ drop k prev)[k := x] = ?A @ [x] @ drop (Suc k) prev" for x
    using k lA by (simp add: list_update_append Cons_nth_drop_Suc [symmetric])
  have "fold step [0..<Suc k] (bands, prev) = step k (fold step [0..<k] (bands, prev))"
    by simp
  also have "\<dots> = step k (?A @ drop k bands, ?A @ drop k prev)"
    using Suc by simp
  also have "\<dots> = ((?A @ drop k bands)[k := g k ((?A @ drop k bands) ! k) ((?A @ drop k prev) ! k)],
                    (?A @ drop k prev)[k := g k ((?A @ drop k bands) ! k) ((?A @ drop k prev) ! k)])"
    using k by (intro step) simp_all
  also have "\<dots> = (?A @ [g k (bands ! k) (prev ! k)] @ drop (Suc k) bands,
                    ?A @ [g k (bands ! k) (prev ! k)] @ drop (Suc k) prev)"
    by (simp only: nb np ub up)
  finally show ?case by simp
qed


definition smooth :: "real \<Rightarrow> real \<Rightarrow> real" where
  "smooth c p = (if p < c then c * 0.6 + p * 0.4 else c * 0.25 + p * 0.75)"

definition band_level :: "real \<Rightarrow> real \<Rightarrow> real" where
  "band_level m b0 = max 0 (min 1 (if 0 < m then (20 * log 10 m + 10) / 50 else b0))"

lemma band_step_eq:
  assumes "b < length bands" "b < length prev"
  shows "band_step spectrum binHz b (bands, prev)
     = (bands[b := smooth (band_level (band_mean spectrum binHz b) (bands ! b)) (prev ! b)],
        prev[b := smooth (band_level (band_mean spectrum binHz b) (bands ! b)) (prev ! b)])"
  using assms by (simp add: band_step_def Let_def smooth_def band_level_def)

lemma decay_step_eq:
  assumes "b < length bands" "b < length prev"
  shows "decay_step b (bands, prev) = (bands[b := prev ! b * 0.8], prev[b := prev ! b * 0.8])"
  using assms by (simp add: decay_step_def Let_def)

lemma map_nth_upt: "map (\<lambda>b. f (xs ! b)) [0..<length xs] = map f xs"
  by (rule nth_equalityI) simp_all

lemma fold_decay:
  assumes "length prev = numBands"
  shows "fold decay_step [0..<numBands] (replicate numBands 0, prev)
     = (map (\<lambda>p. p * 0.8) prev, map (\<lambda>p. p * 0.8) prev)"
proof -
  have "fold decay_step [0..<length prev] (replicate (length prev) 0, prev)
     = (map (\<lambda>b. prev ! b * 0.8) [0..<length prev] @ drop (length prev) (replicate (length prev) 0),
        map (\<lambda>b. prev ! b * 0.8) [0..<length prev] @ drop (length prev) prev)"
    by (rule fold_update_both [where g = "\<lambda>b x p. p * 0.8"]) (simp_all add: decay_step_eq)
  then show ?thesis
    using map_nth_upt [of "\<lambda>p. p * 0.8" prev] unfolding assms [symmetric] by simp
qed

lemma fold_band_step:
  assumes "length prev = numBands"
  shows "fold (band_step spectrum binHz) [0..<numBands] (replicate numBands 0, prev)
     = (map (\<lambda>b. smooth (band_level (band_mean spectrum binHz b) 0) (prev ! b)) [0..<numBands],
        map (\<lambda>b. smooth (band_level (band_mean spectrum binHz b) 0) (prev ! b)) [0..<numBands])"
proof -
  let ?g = "\<lambda>b x p. smooth (band_level (band_mean spectrum binHz b) x) p"
  have "fold (band_step spectrum binHz) [0..<length prev] (replicate (length prev) 0, prev)
     = (map (\<lambda>b. ?g b (replicate (length prev) 0 ! b) (prev ! b)) [0..<length prev]
          @ drop (length prev) (replicate (length prev) 0),
        map (\<lambda>b. ?g b (replicate (length prev) 0 ! b) (prev ! b)) [0..<length prev]
          @ drop (length prev) prev)"
    by (rule fold_update_both [where g = ?g]) (simp_all add: band_step_eq)
  then show ?thesis using assms by (simp cong: map_cong)
qed

lemma Analyze_empty:
  assumes "length (v_prev v) = numBands"
  shows "Analyze v [] = Inr (map (\<lambda>p. p * 0.8) (v_prev v),
                            v\<lparr>v_prev := map (\<lambda>p. p * 0.8) (v_prev v)\<rparr>)"
  using assms by (simp add: Analyze_def fold_decay)

lemma Analyze_nonempty:
  assumes "length (v_prev v) = numBands" and "fftSize \<le> length (v_buf v)" and "samples \<noteq> []"
  shows "Analyze v samples =
     (let buf2 = hann_window (copy_slice (clear_slice (v_buf v)) samples);
          bands = map (\<lambda>b. smooth (band_level
                     (band_mean (FFTReal buf2) (v_sr v / real fftSize) b) 0) (v_prev v ! b))
                    [0..<numBands]
      in Inr (bands, v\<lparr>v_prev := bands, v_buf := buf2\<rparr>))"
proof -
  have "length (copy_slice (clear_slice (v_buf v)) samples) = length (v_buf v)"
    by (simp add: copy_slice_def clear_slice_def)
  then show ?thesis
    using assms by (simp add: Analyze_def Let_def fold_band_step)
qed

subsection \<open>Silence\<close>

definition all_zero :: "real list \<Rightarrow> bool" where
  "all_zero xs \<longleftrightarrow> list_all (\<lambda>x. x = 0) xs"

lemma all_zero_replicate: "all_zero xs \<Longrightarrow> xs = replicate (length xs) 0"
  by (induction xs) (simp_all add: all_zero_def)

lemma copy_zero:
  assumes "all_zero zs"
  shows "copy_slice (clear_slice b) zs = replicate (length b) 0"
proof -
  have "take (length b) zs = replicate (min (length zs) (length b)) 0"
    by (subst all_zero_replicate [OF assms]) simp
  then have "copy_slice (clear_slice b) zs
      = replicate (min (length zs) (length b)) 0 @ replicate (length b - length zs) 0"
    by (simp add: copy_slice_def clear_slice_def)
  also have "\<dots> = replicate (length b) 0"
    by (simp add: replicate_add [symmetric] del: replicate_add)
  finally show ?thesis .
qed

lemma fold_update_zero:
  "fold (\<lambda>i b. b[i := b ! i * w i]) xs (replicate n (0::real)) = replicate n 0"
proof (induction xs)
  case Nil
  then show ?case by simp
next
  case (Cons i xs)
  have "(replicate n (0::real))[i := replicate n 0 ! i * w i] = replicate n 0"
    by (cases "i < n") (simp_all add: list_update_same_conv list_update_beyond)
  with Cons show ?case by simp
qed

lemma hann_window_length: "length (hann_window b) = length b"
proof -
  have "length (fold (\<lambda>i b. b[i := b ! i * hann i]) xs b) = length b" for xs
    by (induction xs arbitrary: b) simp_all
  then show ?thesis by (simp add: hann_window_def)
qed

lemma hann_window_zero: "hann_window (replicate n 0) = replicate n 0"
  unfolding hann_window_def by (rule fold_update_zero)

lemma sum_list_zero: "(\<And>x. x \<in> set xs \<Longrightarrow> f x = 0) \<Longrightarrow> (\<Sum>x\<leftarrow>xs. f x) = (0::complex)"
  by (induction xs) simp_all

lemma FFTReal_zero: "FFTReal (replicate n 0) = replicate n 0"
proof -
  have "(\<Sum>j\<leftarrow>[0..<n]. complex_of_real (replicate n 0 ! j)
           * cis (- (2 * pi * real k * real j / real n))) = 0" for k
    by (rule sum_list_zero) simp
  then show ?thesis
    by (simp add: FFTReal_def map_replicate_const)
qed

lemma foldl_zero_spectrum:
  assumes "\<And>i. i \<in> set xs \<Longrightarrow> 0 \<le> i \<and> nat i < n"
  shows "fst (foldl (\<lambda>(msum, count) i. (msum + cmod (replicate n 0 ! nat i), count + 1))
           (s, c :: int) xs) = s"
  using assms by (induction xs arbitrary: s c) simp_all

lemma band_mean_zero: "band_mean (replicate n 0) binHz b = 0"
proof -
  define loIdx0 where "loIdx0 = go_int (bandEdges ! b / binHz)"
  define hiIdx0 where "hiIdx0 = go_int (bandEdges ! (b + 1) / binHz)"
  define loIdx where "loIdx = (if loIdx0 < 1 then 1 else loIdx0)"
  define halfLen where "halfLen = int n sdiv 2"
  define hiIdx where "hiIdx = (if halfLen \<le> hiIdx0 then halfLen - 1 else hiIdx0)"
  define r where "r = foldl (\<lambda>(msum, count) i. (msum + cmod (replicate n 0 ! nat i), count + 1))
                           (0::real, 0 :: int) [loIdx..hiIdx]"
  have hl: "halfLen \<le> int n"
    unfolding halfLen_def by (simp add: signed_divide_int_def sgn_if) arith
  have "0 \<le> i \<and> nat i < n" if "i \<in> set [loIdx..hiIdx]" for i
  proof -
    from that have "1 \<le> i" "i < halfLen"
      by (auto simp: loIdx_def hiIdx_def split: if_splits)
    with hl show ?thesis by linarith
  qed
  then have "fst r = 0"
    unfolding r_def by (intro foldl_zero_spectrum) blast
  then have "(case r of (msum, count) \<Rightarrow> if 0 < count then msum / real_of_int count else msum) = 0"
    by (cases r) simp
  then show ?thesis
    unfolding band_mean_def Let_def length_replicate
      r_def hiIdx_def halfLen_def loIdx_def hiIdx0_def loIdx0_def .
qed

lemma Analyze_zero:
  assumes "length (v_prev v) = numBands" and "fftSize \<le> length (v_buf v)"
    and "zs \<noteq> []" and "all_zero zs"
  shows "Analyze v zs = Inr (map (smooth 0) (v_prev v),
            v\<lparr>v_prev := map (smooth 0) (v_prev v), v_buf := replicate (length (v_buf v)) 0\<rparr>)"
proof -
  have b: "hann_window (copy_slice (clear_slice (v_buf v)) zs) = replicate (length (v_buf v)) 0"
    by (simp add: copy_zero [OF assms(4)] hann_window_zero)
  have l: "band_level 0 0 = 0" by (simp add: band_level_def)
  have m: "map (\<lambda>b. smooth 0 (v_prev v ! b)) [0..<numBands] = map (smooth 0) (v_prev v)"
    using map_nth_upt [of "smooth 0" "v_prev v"] unfolding assms(1) .
  show ?thesis
    unfolding Analyze_nonempty [OF assms(1-3)] Let_def b FFTReal_zero band_mean_zero l m ..
qed

subsection \<open>Range\<close>

definition unit_range :: "real list \<Rightarrow> bool" where
  "unit_range xs \<longleftrightarrow> list_all (\<lambda>x. 0 \<le> x \<and> x \<le> 1) xs"

lemma band_level_range: "0 \<le> band_level m b0 \<and> band_level m b0 \<le> 1"
  by (simp add: band_level_def)

lemma smooth_range:
  assumes "0 \<le> c" "c \<le> 1" "0 \<le> p" "p \<le> 1"
  shows "0 \<le> smooth c p \<and> smooth c p \<le> 1"
  using assms by (simp add: smooth_def)

lemma Analyze_range:
  assumes "length (v_prev v) = numBands" and "fftSize \<le> length (v_buf v)"
    and "unit_range (v_prev v)"
  shows "\<exists>bands v'. Analyze v samples = Inr (bands, v') \<and> length bands = numBands
     \<and> unit_range bands \<and> v_prev v' = bands \<and> v_sr v' = v_sr v
     \<and> length (v_buf v') = length (v_buf v)"
proof (cases "samples = []")
  case True
  have "unit_range (map (\<lambda>p. p * 0.8) (v_prev v))"
    using assms(3) by (auto simp: unit_range_def list_all_iff)
  then show ?thesis
    using True assms(1) by (simp add: Analyze_empty)
next
  case False
  let ?buf2 = "hann_window (copy_slice (clear_slice (v_buf v)) samples)"
  let ?bands = "map (\<lambda>b. smooth (band_level
                     (band_mean (FFTReal ?buf2) (v_sr v / real fftSize) b) 0) (v_prev v ! b))
                    [0..<numBands]"
  have A: "Analyze v samples = Inr (?bands, v\<lparr>v_prev := ?bands, v_buf := ?buf2\<rparr>)"
    using Analyze_nonempty [OF assms(1,2) False] by (simp add: Let_def)
  have p: "0 \<le> v_prev v ! b \<and> v_prev v ! b \<le> 1" if "b < numBands" for b
    using assms(1,3) that by (simp add: unit_range_def list_all_length)
  have "unit_range ?bands"
    unfolding unit_range_def list_all_iff
    using p band_level_range smooth_range by auto
  moreover have "length ?buf2 = length (v_buf v)"
    by (simp add: hann_window_length copy_slice_def clear_slice_def)
  ultimately show ?thesis using A by simp
qed

subsection \<open>Runs of the analyzer\<close>

text \<open>
  The shape that Go's array type and \<^verbatim>\<open>NewVisualizer\<close> give a visualizer: ten previous
  levels and a buffer of \<open>fftSize\<close> values.
\<close>

definition vis_wf :: "Visualizer \<Rightarrow> bool" where
  "vis_wf v \<longleftrightarrow> length (v_prev v) = numBands \<and> length (v_buf v) = fftSize"

text \<open>Two consecutive calls of \<^verbatim>\<open>Analyze\<close>; the result of the second call is returned.\<close>

definition Analyze_twice ::
  "Visualizer \<Rightarrow> real list \<Rightarrow> real list \<Rightarrow> panic + (real list \<times> Visualizer)" where
  "Analyze_twice v s1 s2 =
     (case Analyze v s1 of Inl e \<Rightarrow> Inl e | Inr (bands1, v1) \<Rightarrow> Analyze v1 s2)"

text \<open>Any number of consecutive calls; all returned level arrays are collected.\<close>

fun Analyze_all ::
  "Visualizer \<Rightarrow> real list list \<Rightarrow> panic + (real list list \<times> Visualizer)" where
  "Analyze_all v [] = Inr ([], v)"
| "Analyze_all v (s # ss) =
     (case Analyze v s of
        Inl e \<Rightarrow> Inl e
      | Inr (bands, v1) \<Rightarrow>
          (case Analyze_all v1 ss of
             Inl e \<Rightarrow> Inl e
           | Inr (outs, v2) \<Rightarrow> Inr (bands # outs, v2)))"

lemma smooth_zero_nonneg: "0 \<le> p \<Longrightarrow> smooth 0 p = p * 0.75"
  by (simp add: smooth_def)

lemma Analyze_zero_wf:
  assumes "vis_wf v" and "zs \<noteq> []" and "all_zero zs" and "list_all (\<lambda>p. 0 \<le> p) (v_prev v)"
  shows "Analyze v zs = Inr (map (\<lambda>p. p * 0.75) (v_prev v),
            v\<lparr>v_prev := map (\<lambda>p. p * 0.75) (v_prev v), v_buf := replicate fftSize 0\<rparr>)"
proof -
  have "map (smooth 0) (v_prev v) = map (\<lambda>p. p * 0.75) (v_prev v)"
    using assms(4) by (simp add: list_all_iff smooth_zero_nonneg)
  then show ?thesis
    using Analyze_zero [of v zs] assms(1-3) by (simp add: vis_wf_def)
qed

lemma Analyze_all_range:
  assumes "vis_wf v" and "unit_range (v_prev v)"
  shows "\<exists>outs v'. Analyze_all v calls = Inr (outs, v') \<and> length outs = length calls
     \<and> (\<forall>bands\<in>set outs. length bands = numBands \<and> unit_range bands)
     \<and> vis_wf v' \<and> unit_range (v_prev v')"
  using assms
proof (induction calls arbitrary: v)
  case Nil
  then show ?case by simp
next
  case (Cons s ss)
  from Analyze_range [of v s] Cons.prems obtain bands v1 where
    a: "Analyze v s = Inr (bands, v1)" "length bands = numBands" "unit_range bands"
       "v_prev v1 = bands" "length (v_buf v1) = length (v_buf v)"
    unfolding vis_wf_def by auto
  then have "vis_wf v1" "unit_range (v_prev v1)"
    using Cons.prems by (simp_all add: vis_wf_def)
  from Cons.IH [OF this] obtain outs v' where
    b: "Analyze_all v1 ss = Inr (outs, v')" "length outs = length ss"
       "\<forall>bands\<in>set outs. length bands = numBands \<and> unit_range bands"
       "vis_wf v'" "unit_range (v_prev v')"
    by blast
  show ?case using a b by simp
qed

text \<open>
  C7. For every prior smoothing state, \<^verbatim>\<open>Analyze\<close> on an empty input returns every
  previous band level multiplied by 0.8 and stores the same values as the new previous
  levels; nothing else of the visualizer changes.
\<close>

theorem Analyze_empty_decays:
  assumes "length (v_prev v) = numBands"
  shows "Analyze v [] = Inr (map (\<lambda>p. p * 0.8) (v_prev v),
                            v\<lparr>v_prev := map (\<lambda>p. p * 0.8) (v_prev v)\<rparr>)
       \<and> (\<forall>b < numBands. map (\<lambda>p. p * 0.8) (v_prev v) ! b = v_prev v ! b * 0.8)"
  using assms by (simp add: Analyze_empty)

theorem Analyze_empty_decays_witness:
  "length (v_prev \<lparr>v_prev = [1, 0.5, 0, 0.25, 1, 0, 0, 0, 0, 0.1], v_sr = 44100,
                   v_buf = replicate fftSize 0\<rparr>) = numBands
   \<and> Analyze \<lparr>v_prev = [1, 0.5, 0, 0.25, 1, 0, 0, 0, 0, 0.1], v_sr = 44100,
               v_buf = replicate fftSize 0\<rparr> []
     = Inr ([0.8, 0.4, 0, 0.2, 0.8, 0, 0, 0, 0, 0.08],
            \<lparr>v_prev = [0.8, 0.4, 0, 0.2, 0.8, 0, 0, 0, 0, 0.08], v_sr = 44100,
             v_buf = replicate fftSize 0\<rparr>)"
  using Analyze_empty_decays [of "\<lparr>v_prev = [1, 0.5, 0, 0.25, 1, 0, 0, 0, 0, 0.1],
    v_sr = 44100, v_buf = replicate fftSize 0\<rparr>"]
  by (simp add: numBands_def)

text \<open>
  C3, as the claim states it, fails: with every previous level at 0.6 (the level one loud
  frame leaves behind), two calls on the silent one-sample input return 0.3375 for all
  ten bands, not 0.
\<close>

theorem Analyze_zero_twice_counterexample:
  "Analyze_twice ((NewVisualizer 44100)\<lparr>v_prev := replicate numBands 0.6\<rparr>) [0] [0]
     = Inr (replicate numBands 0.3375,
            (NewVisualizer 44100)\<lparr>v_prev := replicate numBands 0.3375\<rparr>)
   \<and> replicate numBands (0.3375::real) \<noteq> replicate numBands 0"
proof -
  let ?v = "(NewVisualizer 44100)\<lparr>v_prev := replicate numBands 0.6\<rparr>"
  let ?v1 = "(NewVisualizer 44100)\<lparr>v_prev := replicate numBands 0.45\<rparr>"
  have z: "all_zero [0]" by (simp add: all_zero_def)
  have 1: "Analyze ?v [0] = Inr (replicate numBands 0.45, ?v1)"
    using Analyze_zero_wf [of ?v "[0]"] z
    by (simp add: vis_wf_def NewVisualizer_def list_all_iff)
  have 2: "Analyze ?v1 [0] = Inr (replicate numBands 0.3375,
       (NewVisualizer 44100)\<lparr>v_prev := replicate numBands 0.3375\<rparr>)"
    using Analyze_zero_wf [of ?v1 "[0]"] z
    by (simp add: vis_wf_def NewVisualizer_def list_all_iff)
  have 3: "replicate numBands (0.3375::real) \<noteq> replicate numBands 0"
    by (simp add: numBands_def)
  show ?thesis using 1 2 3 by (simp add: Analyze_twice_def)
qed

text \<open>
  C3, amended. For every visualizer whose previous levels are not negative, two
  consecutive calls of \<^verbatim>\<open>Analyze\<close> on non-empty all-zero inputs return every previous
  level multiplied by 0.75 twice, that is by 0.5625; they return 0 for all ten bands when
  the previous levels were all 0, as they are in a new visualizer.
\<close>

theorem Analyze_zero_twice:
  assumes "vis_wf v" and "list_all (\<lambda>p. 0 \<le> p) (v_prev v)"
    and "zs1 \<noteq> []" and "all_zero zs1" and "zs2 \<noteq> []" and "all_zero zs2"
  shows "Analyze_twice v zs1 zs2
       = Inr (map (\<lambda>p. p * 0.5625) (v_prev v),
              v\<lparr>v_prev := map (\<lambda>p. p * 0.5625) (v_prev v), v_buf := replicate fftSize 0\<rparr>)
     \<and> (all_zero (v_prev v) \<longrightarrow>
          map (\<lambda>p. p * 0.5625) (v_prev v) = replicate numBands 0)"
proof -
  let ?p1 = "map (\<lambda>p. p * 0.75) (v_prev v)"
  let ?v1 = "v\<lparr>v_prev := ?p1, v_buf := replicate fftSize 0\<rparr>"
  have 1: "Analyze v zs1 = Inr (?p1, ?v1)"
    by (rule Analyze_zero_wf [OF assms(1,3,4,2)])
  have wf1: "vis_wf ?v1" using assms(1) by (simp add: vis_wf_def)
  have nn1: "list_all (\<lambda>p. 0 \<le> p) (v_prev ?v1)"
    using assms(2) by (simp add: list_all_iff)
  have 2: "Analyze ?v1 zs2 = Inr (map (\<lambda>p. p * 0.75) (v_prev ?v1),
       ?v1\<lparr>v_prev := map (\<lambda>p. p * 0.75) (v_prev ?v1), v_buf := replicate fftSize 0\<rparr>)"
    by (rule Analyze_zero_wf [OF wf1 assms(5,6) nn1])
  have 3: "map (\<lambda>p. p * 0.75) (v_prev ?v1) = map (\<lambda>p. p * 0.5625) (v_prev v)"
    by simp
  have 4: "map (\<lambda>p. p * 0.5625) (v_prev v) = replicate numBands 0" if "all_zero (v_prev v)"
  proof -
    have "v_prev v = replicate numBands 0"
      using all_zero_replicate [OF that] assms(1) by (simp add: vis_wf_def)
    then show ?thesis by simp
  qed
  show ?thesis using 1 2 3 4 by (simp add: Analyze_twice_def)
qed

theorem Analyze_zero_twice_witness:
  "vis_wf (NewVisualizer 48000) \<and> list_all (\<lambda>p. 0 \<le> p) (v_prev (NewVisualizer 48000))
   \<and> [0, 0, 0] \<noteq> [] \<and> all_zero [0, 0, 0] \<and> [0] \<noteq> [] \<and> all_zero [0]
   \<and> all_zero (v_prev (NewVisualizer 48000))
   \<and> Analyze_twice (NewVisualizer 48000) [0, 0, 0] [0]
       = Inr (replicate numBands 0, NewVisualizer 48000)"
proof -
  have h: "vis_wf (NewVisualizer 48000)" "list_all (\<lambda>p. 0 \<le> p) (v_prev (NewVisualizer 48000))"
    "[0, 0, 0::real] \<noteq> []" "all_zero [0, 0, 0]" "[0::real] \<noteq> []" "all_zero [0]"
    "all_zero (v_prev (NewVisualizer 48000))"
    by (simp_all add: vis_wf_def NewVisualizer_def all_zero_def list_all_iff)
  from Analyze_zero_twice [OF h(1-6)] h show ?thesis
    by (simp add: NewVisualizer_def)
qed

text \<open>
  C9. Starting from a new visualizer, after any sequence of calls of \<^verbatim>\<open>Analyze\<close> (empty
  and non-empty inputs in any order) no call has panicked, every call has returned ten
  levels that all lie in \<open>[0, 1]\<close>, and the stored previous levels lie in \<open>[0, 1]\<close>.
\<close>

theorem Analyze_levels_in_unit_range:
  "\<exists>outs v'. Analyze_all (NewVisualizer sampleRate) calls = Inr (outs, v')
     \<and> length outs = length calls
     \<and> (\<forall>bands\<in>set outs. length bands = numBands \<and> (\<forall>x\<in>set bands. 0 \<le> x \<and> x \<le> 1))
     \<and> length (v_prev v') = numBands \<and> (\<forall>x\<in>set (v_prev v'). 0 \<le> x \<and> x \<le> 1)"
proof -
  have "vis_wf (NewVisualizer sampleRate)" "unit_range (v_prev (NewVisualizer sampleRate))"
    by (simp_all add: vis_wf_def NewVisualizer_def unit_range_def list_all_iff)
  from Analyze_all_range [OF this, of calls] show ?thesis
    unfolding unit_range_def list_all_iff vis_wf_def by blast
qed

theorem Analyze_levels_in_unit_range_witness:
  "\<exists>outs v'. Analyze_all (NewVisualizer 44100) [[], [0, 0], []] = Inr (outs, v')
     \<and> length outs = 3 \<and> outs = [replicate numBands 0, replicate numBands 0, replicate numBands 0]
     \<and> v_prev v' = replicate numBands 0"
proof -
  have z: "all_zero [0, 0]" "all_zero (replicate numBands 0)"
    by (simp_all add: all_zero_def list_all_iff)
  have w: "vis_wf (NewVisualizer 44100)" by (simp add: vis_wf_def NewVisualizer_def)
  have 1: "Analyze (NewVisualizer 44100) [] = Inr (replicate numBands 0, NewVisualizer 44100)"
    using Analyze_empty [of "NewVisualizer 44100"] by (simp add: NewVisualizer_def)
  have 2: "Analyze (NewVisualizer 44100) [0, 0] = Inr (replicate numBands 0, NewVisualizer 44100)"
    using Analyze_zero_wf [OF w, of "[0, 0]"] z by (simp add: NewVisualizer_def list_all_iff)
  have 3: "v_prev (NewVisualizer 44100) = replicate numBands 0"
    by (simp add: NewVisualizer_def)
  from Analyze_levels_in_unit_range [of 44100 "[[], [0, 0], []]"] show ?thesis
    by (simp add: 1 2 3)
qed

section \<open>The biquad stage of the equalizer\<close>

text \<open>
  The struct \<^verbatim>\<open>biquad\<close>. The upstream streamer \<^verbatim>\<open>s\<close> and the pointer \<^verbatim>\<open>gain\<close> are not
  fields of the model: \<open>biquad_Stream\<close> receives the frames the upstream delivered and
  the value \<^verbatim>\<open>*b.gain\<close> read at the start of the call. The two-element arrays
  \<^verbatim>\<open>x1, x2, y1, y2\<close> are pairs (channel 0, channel 1). The field \<open>bq_ncalc\<close> is a ghost
  counter that the source does not have: it counts how often \<^verbatim>\<open>calcCoeffs\<close> went past
  its early return and computed the coefficients.
\<close>

record biquad =
  bq_freq :: real
  bq_q :: real
  bq_sr :: real
  bq_x1 :: "real \<times> real"
  bq_x2 :: "real \<times> real"
  bq_y1 :: "real \<times> real"
  bq_y2 :: "real \<times> real"
  bq_lastGain :: real
  bq_b0 :: real
  bq_b1 :: real
  bq_b2 :: real
  bq_a1 :: real
  bq_a2 :: real
  bq_inited :: bool
  bq_ncalc :: nat

definition newBiquad :: "real \<Rightarrow> real \<Rightarrow> real \<Rightarrow> biquad" where
  "newBiquad freq q sr =
     \<lparr>bq_freq = freq, bq_q = q, bq_sr = sr,
      bq_x1 = (0, 0), bq_x2 = (0, 0), bq_y1 = (0, 0), bq_y2 = (0, 0),
      bq_lastGain = 0, bq_b0 = 0, bq_b1 = 0, bq_b2 = 0, bq_a1 = 0, bq_a2 = 0,
      bq_inited = False, bq_ncalc = 0\<rparr>"

definition calcCoeffs :: "biquad \<Rightarrow> real \<Rightarrow> biquad" where
  "calcCoeffs b dB =
     (if bq_inited b \<and> dB = bq_lastGain b then b
      else
        let a = 10 powr (dB / 40);
            w0 = 2 * pi * bq_freq b / bq_sr b;
            sinW0 = sin w0;
            cosW0 = cos w0;
            alpha = sinW0 / (2 * bq_q b);
            b0 = 1 + alpha * a;
            b1 = - 2 * cosW0;
            b2 = 1 - alpha * a;
            a0 = 1 + alpha / a;
            a1 = - 2 * cosW0;
            a2 = 1 - alpha / a
        in b\<lparr>bq_lastGain := dB, bq_inited := True,
             bq_b0 := b0 / a0, bq_b1 := b1 / a0, bq_b2 := b2 / a0,
             bq_a1 := a1 / a0, bq_a2 := a2 / a0,
             bq_ncalc := bq_ncalc b + 1\<rparr>)"

text \<open>
  One pass of the inner loop body for one channel: from the channel's history
  \<open>(x1, x2, y1, y2)\<close> and the input \<open>x\<close> to the output \<open>y\<close> and the new history.
\<close>

definition channel_step ::
  "biquad \<Rightarrow> real \<times> real \<times> real \<times> real \<Rightarrow> real \<Rightarrow> real \<times> (real \<times> real \<times> real \<times> real)" where
  "channel_step b = (\<lambda>(x1, x2, y1, y2) x.
     let y = bq_b0 b * x + bq_b1 b * x1 + bq_b2 b * x2 - bq_a1 b * y1 - bq_a2 b * y2
     in (y, (x, x1, y, y1)))"

text \<open>The loop \<^verbatim>\<open>for ch := range 2\<close> on one frame, channel 0 and then channel 1.\<close>

definition frame_step :: "biquad \<Rightarrow> frame \<Rightarrow> biquad \<times> frame" where
  "frame_step b s =
     (let (yl, (x1l, x2l, y1l, y2l)) =
            channel_step b (fst (bq_x1 b), fst (bq_x2 b), fst (bq_y1 b), fst (bq_y2 b)) (fst s);
          (yr, (x1r, x2r, y1r, y2r)) =
            channel_step b (snd (bq_x1 b), snd (bq_x2 b), snd (bq_y1 b), snd (bq_y2 b)) (snd s)
      in (b\<lparr>bq_x1 := (x1l, x1r), bq_x2 := (x2l, x2r),
            bq_y1 := (y1l, y1r), bq_y2 := (y2l, y2r)\<rparr>, (yl, yr)))"

text \<open>The loop \<^verbatim>\<open>for i := range n\<close> over the frames.\<close>

fun biquad_process :: "biquad \<Rightarrow> frame list \<Rightarrow> biquad \<times> frame list" where
  "biquad_process b [] = (b, [])"
| "biquad_process b (s # ss) =
     (let (b1, y) = frame_step b s;
          (b2, ys) = biquad_process b1 ss
      in (b2, y # ys))"

text \<open>The test \<^verbatim>\<open>dB > -0.1 && dB < 0.1\<close> of \<^verbatim>\<open>Stream\<close>.\<close>

definition bypassed :: "real \<Rightarrow> bool" where
  "bypassed dB \<longleftrightarrow> - 0.1 < dB \<and> dB < 0.1"

definition biquad_Stream :: "biquad \<Rightarrow> real \<Rightarrow> frame list \<Rightarrow> biquad \<times> frame list" where
  "biquad_Stream b dB frames =
     (if bypassed dB then (b, frames)
      else biquad_process (calcCoeffs b dB) frames)"

text \<open>
  A sequence of calls of \<^verbatim>\<open>Stream\<close> on one stage; each call comes with the gain it reads
  and the frames the upstream delivered.
\<close>

fun Stream_calls :: "biquad \<Rightarrow> (real \<times> frame list) list \<Rightarrow> biquad" where
  "Stream_calls b [] = b"
| "Stream_calls b ((dB, frames) # cs) = Stream_calls (fst (biquad_Stream b dB frames)) cs"

subsection \<open>What frame processing keeps\<close>

lemma frame_step_cache:
  "bq_inited (fst (frame_step b s)) = bq_inited b
   \<and> bq_lastGain (fst (frame_step b s)) = bq_lastGain b
   \<and> bq_ncalc (fst (frame_step b s)) = bq_ncalc b"
  by (simp add: frame_step_def channel_step_def Let_def split: prod.splits)

lemma biquad_process_cache:
  "bq_inited (fst (biquad_process b ss)) = bq_inited b
   \<and> bq_lastGain (fst (biquad_process b ss)) = bq_lastGain b
   \<and> bq_ncalc (fst (biquad_process b ss)) = bq_ncalc b"
proof (induction ss arbitrary: b)
  case Nil
  then show ?case by simp
next
  case (Cons s ss)
  obtain b1 y where f: "frame_step b s = (b1, y)" by (cases "frame_step b s")
  obtain b2 ys where p: "biquad_process b1 ss = (b2, ys)" by (cases "biquad_process b1 ss")
  from Cons [of b1] p frame_step_cache [of b s] f show ?case by simp
qed

text \<open>The number of computations a gain sequence causes, from the cache state on.\<close>

fun recomputations :: "real option \<Rightarrow> real list \<Rightarrow> nat" where
  "recomputations c [] = 0"
| "recomputations c (g # gs) =
     (if bypassed g then recomputations c gs
      else if c = Some g then recomputations c gs
      else 1 + recomputations (Some g) gs)"

definition cached :: "biquad \<Rightarrow> real option" where
  "cached b = (if bq_inited b then Some (bq_lastGain b) else None)"

lemma Stream_cache:
  "bypassed dB \<Longrightarrow> fst (biquad_Stream b dB fs) = b"
  "\<not> bypassed dB \<Longrightarrow> cached b = Some dB \<Longrightarrow>
     cached (fst (biquad_Stream b dB fs)) = Some dB
     \<and> bq_ncalc (fst (biquad_Stream b dB fs)) = bq_ncalc b"
  "\<not> bypassed dB \<Longrightarrow> cached b \<noteq> Some dB \<Longrightarrow>
     cached (fst (biquad_Stream b dB fs)) = Some dB
     \<and> bq_ncalc (fst (biquad_Stream b dB fs)) = bq_ncalc b + 1"
  by (auto simp: biquad_Stream_def cached_def biquad_process_cache calcCoeffs_def Let_def
      split: if_splits)

lemma Stream_calls_ncalc:
  "bq_ncalc (Stream_calls b cs) = bq_ncalc b + recomputations (cached b) (map fst cs)"
proof (induction cs arbitrary: b)
  case Nil
  then show ?case by simp
next
  case (Cons c cs)
  obtain dB fs where c: "c = (dB, fs)" by (cases c)
  show ?case
  proof (cases "bypassed dB")
    case True
    then show ?thesis using Cons [of b] c by (simp add: Stream_cache(1))
  next
    case False
    show ?thesis
    proof (cases "cached b = Some dB")
      case True
      with False Stream_cache(2) [of dB b fs] Cons [of "fst (biquad_Stream b dB fs)"] c
      show ?thesis by simp
    next
      case nc: False
      with False Stream_cache(3) [of dB b fs] Cons [of "fst (biquad_Stream b dB fs)"] c
      show ?thesis by simp
    qed
  qed
qed

lemma recomputations_Some:
  "recomputations (Some g) gs = length (remdups_adj (g # filter (\<lambda>x. \<not> bypassed x) gs)) - 1"
proof (induction gs arbitrary: g)
  case Nil
  then show ?case by simp
next
  case (Cons x xs)
  then show ?case by (cases "filter (\<lambda>x. \<not> bypassed x) xs") auto
qed

lemma recomputations_None:
  "recomputations None gs = length (remdups_adj (filter (\<lambda>x. \<not> bypassed x) gs))"
proof (induction gs)
  case Nil
  then show ?case by simp
next
  case (Cons x xs)
  then show ?case by (simp add: recomputations_Some)
qed

lemma recomputations_constant:
  "list_all (\<lambda>x. x = g) gs \<Longrightarrow> recomputations (Some g) gs = 0"
  by (induction gs) simp_all

lemma recomputations_constant_le:
  "list_all (\<lambda>x. x = g) gs \<Longrightarrow> recomputations c gs \<le> 1"
  by (induction gs) (simp_all add: recomputations_constant)


subsection \<open>Claims about the biquad stage\<close>

text \<open>
  C4. For every gain \<open>dB\<close> with \<open>\<bar>dB\<bar> < 0.1\<close>, every stage state and every list of
  frames, \<^verbatim>\<open>Stream\<close> returns the frames as they came and leaves the stage as it was:
  the filter histories, the cached coefficients and the computation counter are all
  unchanged, so neither the recurrence nor \<^verbatim>\<open>calcCoeffs\<close> has run.
\<close>

theorem biquad_Stream_bypass:
  assumes "\<bar>dB\<bar> < 0.1"
  shows "biquad_Stream b dB frames = (b, frames)"
proof -
  from assms have "- 0.1 < dB" and "dB < 0.1" by linarith+
  then have "bypassed dB" by (simp add: bypassed_def)
  then show ?thesis by (simp add: biquad_Stream_def)
qed

theorem biquad_Stream_bypass_witness:
  "\<bar>0.05 :: real\<bar> < 0.1
   \<and> biquad_Stream ((newBiquad 70 1.4 44100)\<lparr>bq_x1 := (0.5, 0.25), bq_y1 := (1, 2)\<rparr>) 0.05
         [(0.5, - 0.5), (1, 0.75)]
     = ((newBiquad 70 1.4 44100)\<lparr>bq_x1 := (0.5, 0.25), bq_y1 := (1, 2)\<rparr>,
        [(0.5, - 0.5), (1, 0.75)])"
  using biquad_Stream_bypass [of "0.05"
      "(newBiquad 70 1.4 44100)\<lparr>bq_x1 := (0.5, 0.25), bq_y1 := (1, 2)\<rparr>"
      "[(0.5, - 0.5), (1, 0.75)]"]
  by simp

text \<open>
  C5, as the claim states it, fails: a new stage that sees the gains 3, 6 and 3 in three
  calls computes its coefficients three times, although only two distinct gain values
  were observed.
\<close>

theorem calcCoeffs_count_counterexample:
  "bq_ncalc (Stream_calls (newBiquad 70 1.4 44100)
      [(3, [(1, 1)]), (6, [(1, 1)]), (3, [(1, 1)])]) = 3
   \<and> card (set (map fst [(3 :: real, [(1 :: real, 1 :: real)]), (6, [(1, 1)]), (3, [(1, 1)])])) = 2"
proof -
  have "bq_ncalc (Stream_calls (newBiquad 70 1.4 44100)
      [(3, [(1, 1)]), (6, [(1, 1)]), (3, [(1, 1)])]) = 3"
    unfolding Stream_calls_ncalc by (simp add: cached_def newBiquad_def bypassed_def)
  moreover have "card (set [3 :: real, 6, 3]) = 2"
    unfolding card_set by simp
  ultimately show ?thesis by simp
qed

text \<open>
  C5, amended. The cache holds one gain, the last one computed for. For a new stage and
  every sequence of calls of \<^verbatim>\<open>Stream\<close>, the number of coefficient computations is the
  number of times the gain read was outside the bypass window and differed from the gain
  of the latest computation: the number of runs of equal neighbours among the
  non-bypassed gains. It does not depend on the number of frames, and calls that all
  read the same gain cause at most one computation.
\<close>

theorem calcCoeffs_count:
  "bq_ncalc (Stream_calls (newBiquad freq q sr) calls)
     = length (remdups_adj (filter (\<lambda>g. \<not> bypassed g) (map fst calls)))
   \<and> (list_all (\<lambda>c. fst c = g) calls \<longrightarrow>
        bq_ncalc (Stream_calls (newBiquad freq q sr) calls) \<le> 1)"
proof -
  have c: "cached (newBiquad freq q sr) = None" "bq_ncalc (newBiquad freq q sr) = 0"
    by (simp_all add: cached_def newBiquad_def)
  have 1: "bq_ncalc (Stream_calls (newBiquad freq q sr) calls)
      = recomputations None (map fst calls)"
    by (simp add: Stream_calls_ncalc c)
  have 2: "recomputations None (map fst calls) \<le> 1" if "list_all (\<lambda>c. fst c = g) calls"
    using that by (intro recomputations_constant_le [of g]) (simp add: list_all_iff)
  from 1 2 show ?thesis by (simp add: recomputations_None)
qed

theorem calcCoeffs_count_witness:
  "list_all (\<lambda>c. fst c = 6) [(6 :: real, replicate 10000 (1 :: real, 1 :: real))]
   \<and> bq_ncalc (Stream_calls (newBiquad 70 1.4 44100) [(6, replicate 10000 (1, 1))]) = 1
   \<and> bq_ncalc (Stream_calls (newBiquad 70 1.4 44100)
        [(6, [(1, 1), (0, 1)]), (0, [(1, 1)]), (6, [(1, 0)]), (- 3, [(1, 1)]), (- 3, [])]) = 2"
  using calcCoeffs_count [of 70 "1.4" 44100 "[(6, replicate 10000 (1, 1))]" 6]
    calcCoeffs_count [of 70 "1.4" 44100
      "[(6, [(1, 1), (0, 1)]), (0, [(1, 1)]), (6, [(1, 0)]), (- 3, [(1, 1)]), (- 3, [])]" 6]
  by (simp add: bypassed_def)

section \<open>The player\<close>

subsection \<open>Collaborators outside the repository\<close>

text \<open>
  \<^verbatim>\<open>time.Duration\<close> is a signed 64-bit count of nanoseconds and \<^verbatim>\<open>beep.SampleRate\<close> is an
  \<^verbatim>\<open>int\<close>. The library converts between samples and durations by
  \<^verbatim>\<open>D(n) = time.Second * time.Duration(n) / time.Duration(sr)\<close> and
  \<^verbatim>\<open>N(d) = int(d * time.Duration(sr) / time.Second)\<close>, in 64-bit arithmetic that wraps
  around; a division by zero panics.
\<close>

definition wrap64 :: "int \<Rightarrow> int" where
  "wrap64 x = (x + 2 ^ 63) mod 2 ^ 64 - 2 ^ 63"

definition Second :: int where
  "Second = 1000000000"

definition SampleRate_D :: "int \<Rightarrow> int \<Rightarrow> panic + int" where
  "SampleRate_D sr n =
     (if sr = 0 then Inl DivideByZero else Inr (wrap64 (wrap64 (Second * n) sdiv sr)))"

definition SampleRate_N :: "int \<Rightarrow> int \<Rightarrow> int" where
  "SampleRate_N sr d = wrap64 (wrap64 (d * sr) sdiv Second)"

datatype error = OpenError | DecodeError | SeekOutOfRange

text \<open>
  The decoded stream (\<^verbatim>\<open>beep.StreamSeekCloser\<close>, here the MP3 decoder of the library):
  a position and a length in samples. Its \<^verbatim>\<open>Seek\<close> refuses a position outside
  \<open>[0, Len]\<close> and otherwise moves there.
\<close>

record streamer =
  s_pos :: int
  s_len :: int

definition streamer_Seek :: "streamer \<Rightarrow> int \<Rightarrow> streamer \<times> error option" where
  "streamer_Seek s p =
     (if p < 0 \<or> s_len s < p then (s, Some SeekOutOfRange) else (s\<lparr>s_pos := p\<rparr>, None))"

record format =
  SampleRate :: int
  NumChannels :: int
  Precision :: int

datatype os_file = File string

text \<open>
  The file system and the decoder as the player sees them: \<^verbatim>\<open>os.Open\<close> and \<^verbatim>\<open>mp3.Decode\<close>
  either fail (\<open>None\<close>) or deliver a handle, respectively a stream and its format.
\<close>

record env =
  os_Open :: "string \<Rightarrow> os_file option"
  mp3_Decode :: "os_file \<Rightarrow> (streamer \<times> format) option"

subsection \<open>State\<close>

record ctrl =
  ctrl_Paused :: bool

text \<open>The struct \<^verbatim>\<open>Player\<close> (without its mutex); a nil pointer is \<open>None\<close>.\<close>

record Player =
  p_sr :: int
  p_streamer :: "streamer option"
  p_format :: format
  p_ctrl :: "ctrl option"
  p_volume :: real
  p_eqBands :: "real list"
  p_tap :: "Tap option"
  p_trackDone :: bool
  p_playing :: bool
  p_paused :: bool
  p_file :: "os_file option"

text \<open>
  What \<^verbatim>\<open>Play\<close> chains together and hands to the speaker: the decoded stream, the
  resampler when the rates differ (from, to), the ten biquad stages in order, the tap and
  the pause control. The volume stage has no state of its own (it reads the player's
  volume through a pointer). The end-of-track callback follows the control in sequence.
\<close>

record pipeline =
  pl_source :: streamer
  pl_resample :: "(int \<times> int) option"
  pl_eq :: "biquad list"
  pl_tap :: Tap
  pl_ctrl :: ctrl

text \<open>
  The player together with the state outside it that its methods touch: the streamers in
  the speaker's mixer, which are what the audio callback pulls from, and the file handles
  that are open. In Go the stream, the tap and the control are shared by pointer between
  the player and the mixer; here they stand in both places, and the theorems below only
  depend on which of them exist.
\<close>

record world =
  player :: Player
  mixer :: "pipeline list"
  open_files :: "os_file list"

definition EQFreqs :: "real list" where
  "EQFreqs = [70, 180, 320, 600, 1000, 3000, 6000, 12000, 14000, 16000]"

definition New :: "int \<Rightarrow> world" where
  "New sr =
     \<lparr>player = \<lparr>p_sr = sr, p_streamer = None,
                 p_format = \<lparr>SampleRate = 0, NumChannels = 0, Precision = 0\<rparr>,
                 p_ctrl = None, p_volume = 0, p_eqBands = replicate 10 0, p_tap = None,
                 p_trackDone = False, p_playing = False, p_paused = False, p_file = None\<rparr>,
      mixer = [], open_files = []\<rparr>"

subsection \<open>Operations\<close>

definition Stop :: "world \<Rightarrow> world" where
  "Stop w =
     (let w1 = w\<lparr>mixer := []\<rparr>;
          p = player w1;
          p1 = (case p_streamer p of None \<Rightarrow> p | Some s \<Rightarrow> p\<lparr>p_streamer := None\<rparr>);
          w2 = (case p_file p1 of
                  None \<Rightarrow> w1\<lparr>player := p1\<rparr>
                | Some f \<Rightarrow> w1\<lparr>player := p1\<lparr>p_file := None\<rparr>,
                              open_files := remove1 f (open_files w1)\<rparr>)
      in w2\<lparr>player := (player w2)\<lparr>p_ctrl := None, p_tap := None, p_playing := False,
                                    p_paused := False, p_trackDone := False\<rparr>\<rparr>)"

definition Play :: "env \<Rightarrow> world \<Rightarrow> string \<Rightarrow> world \<times> error option" where
  "Play e w path =
     (let w1 = Stop w in
      case os_Open e path of
        None \<Rightarrow> (w1, Some OpenError)
      | Some f \<Rightarrow>
          let w2 = w1\<lparr>open_files := f # open_files w1\<rparr> in
          (case mp3_Decode e f of
             None \<Rightarrow> (w2\<lparr>open_files := remove1 f (open_files w2)\<rparr>, Some DecodeError)
           | Some (strm, fmt) \<Rightarrow>
               let p = player w2;
                   rs = (if SampleRate fmt \<noteq> p_sr p then Some (SampleRate fmt, p_sr p)
                         else None);
                   eq = map (\<lambda>i. newBiquad (EQFreqs ! i) 1.4 (real_of_int (p_sr p))) [0..<10];
                   tp = projr (NewTap 4096);
                   c = \<lparr>ctrl_Paused = False\<rparr>;
                   p1 = p\<lparr>p_file := Some f, p_streamer := Some strm, p_format := fmt,
                          p_trackDone := False, p_tap := Some tp, p_ctrl := Some c,
                          p_playing := True, p_paused := False\<rparr>
               in (w2\<lparr>player := p1,
                      mixer := mixer w2 @
                        [\<lparr>pl_source = strm, pl_resample = rs, pl_eq = eq, pl_tap = tp,
                          pl_ctrl = c\<rparr>]\<rparr>,
                   None)))"

definition Seek :: "Player \<Rightarrow> int \<Rightarrow> panic + (Player \<times> error option)" where
  "Seek p d =
     (case p_streamer p of
        None \<Rightarrow> Inr (p, None)
      | Some s \<Rightarrow>
          let curSample = s_pos s in
          (case SampleRate_D (SampleRate (p_format p)) curSample of
             Inl e \<Rightarrow> Inl e
           | Inr curDur \<Rightarrow>
               let newSample0 = SampleRate_N (SampleRate (p_format p)) (wrap64 (curDur + d));
                   newSample1 = (if newSample0 < 0 then 0 else newSample0);
                   newSample = (if s_len s \<le> newSample1 then wrap64 (s_len s - 1)
                                else newSample1);
                   (s1, err) = streamer_Seek s newSample
               in Inr (p\<lparr>p_streamer := Some s1\<rparr>, err)))"

definition Position :: "Player \<Rightarrow> panic + int" where
  "Position p =
     (case p_streamer p of
        None \<Rightarrow> Inr 0
      | Some s \<Rightarrow> SampleRate_D (SampleRate (p_format p)) (s_pos s))"

definition Duration :: "Player \<Rightarrow> panic + int" where
  "Duration p =
     (case p_streamer p of
        None \<Rightarrow> Inr 0
      | Some s \<Rightarrow> SampleRate_D (SampleRate (p_format p)) (s_len s))"

definition SetVolume :: "Player \<Rightarrow> real \<Rightarrow> Player" where
  "SetVolume p db = p\<lparr>p_volume := max (min db 6) (- 30)\<rparr>"

definition Volume :: "Player \<Rightarrow> real" where
  "Volume p = p_volume p"

definition SetEQBand :: "Player \<Rightarrow> int \<Rightarrow> real \<Rightarrow> Player" where
  "SetEQBand p band dB =
     (if band < 0 \<or> 10 \<le> band then p
      else p\<lparr>p_eqBands := (p_eqBands p)[nat band := max (min dB 12) (- 12)]\<rparr>)"

definition EQBands :: "Player \<Rightarrow> real list" where
  "EQBands p = p_eqBands p"

text \<open>The clamp of the specification, in its words.\<close>

definition clamp :: "real \<Rightarrow> real \<Rightarrow> real \<Rightarrow> real" where
  "clamp x lo hi = (if x < lo then lo else if hi < x then hi else x)"

text \<open>
  C8. For every \<open>x\<close> and every index \<open>i\<close> in \<open>[0, 9]\<close>, reading band \<open>i\<close> after
  \<^verbatim>\<open>SetEQBand(i, x)\<close> gives \<open>clamp(x, -12, 12)\<close> and every other band is as before; for
  every \<open>i\<close> outside \<open>[0, 9]\<close> the player, and with it every band gain, is unchanged.
\<close>

theorem SetEQBand_clamps:
  assumes "length (p_eqBands p) = 10"
  shows "(0 \<le> i \<and> i < 10 \<longrightarrow>
            EQBands (SetEQBand p i x) ! nat i = clamp x (- 12) 12
          \<and> (\<forall>j < 10. j \<noteq> nat i \<longrightarrow> EQBands (SetEQBand p i x) ! j = EQBands p ! j)
          \<and> SetEQBand p i x = p\<lparr>p_eqBands := (p_eqBands p)[nat i := clamp x (- 12) 12]\<rparr>)
       \<and> (\<not> (0 \<le> i \<and> i < 10) \<longrightarrow>
            SetEQBand p i x = p \<and> EQBands (SetEQBand p i x) = EQBands p)"
  using assms by (auto simp: SetEQBand_def EQBands_def clamp_def)

theorem SetEQBand_clamps_witness:
  "length (p_eqBands (player (New 44100))) = 10
   \<and> EQBands (SetEQBand (player (New 44100)) 3 20) = [0, 0, 0, 12, 0, 0, 0, 0, 0, 0]
   \<and> EQBands (SetEQBand (player (New 44100)) 0 (- 13.5)) = [- 12, 0, 0, 0, 0, 0, 0, 0, 0, 0]
   \<and> EQBands (SetEQBand (player (New 44100)) 9 4.5) = [0, 0, 0, 0, 0, 0, 0, 0, 0, 4.5]
   \<and> SetEQBand (player (New 44100)) 10 5 = player (New 44100)
   \<and> SetEQBand (player (New 44100)) (- 1) 5 = player (New 44100)"
  using SetEQBand_clamps [of "player (New 44100)" 3 20]
    SetEQBand_clamps [of "player (New 44100)" 0 "- 13.5"]
    SetEQBand_clamps [of "player (New 44100)" 9 "4.5"]
    SetEQBand_clamps [of "player (New 44100)" 10 5]
    SetEQBand_clamps [of "player (New 44100)" "- 1" 5]
  by (simp add: New_def EQBands_def clamp_def eval_nat_numeral)

subsection \<open>Stopping and a failed load\<close>

lemma Stop_fields:
  "mixer (Stop w) = []"
  "p_streamer (player (Stop w)) = None"
  "p_ctrl (player (Stop w)) = None"
  "p_tap (player (Stop w)) = None"
  "p_file (player (Stop w)) = None"
  "p_playing (player (Stop w)) = False"
  "p_paused (player (Stop w)) = False"
  "p_trackDone (player (Stop w)) = False"
  "p_volume (player (Stop w)) = p_volume (player w)"
  "p_eqBands (player (Stop w)) = p_eqBands (player w)"
  "p_sr (player (Stop w)) = p_sr (player w)"
  by (simp_all add: Stop_def Let_def split: option.splits)

lemma Play_failure:
  assumes "snd (Play e w path) \<noteq> None"
  shows "fst (Play e w path) = Stop w"
    and "os_Open e path = None \<or> (\<exists>f. os_Open e path = Some f \<and> mp3_Decode e f = None)"
  using assms by (auto simp: Play_def Let_def split: option.splits)

lemma Play_failure_iff:
  "snd (Play e w path) \<noteq> None \<longleftrightarrow>
     os_Open e path = None \<or> (\<exists>f. os_Open e path = Some f \<and> mp3_Decode e f = None)"
  by (auto simp: Play_def Let_def split: option.splits)

text \<open>
  A scenario: the file \<^verbatim>\<open>track.mp3\<close> decodes to a 10-second stream at 44100 Hz (441000
  samples); every other file opens but does not decode.
\<close>

definition scenario_env :: env where
  "scenario_env =
     \<lparr>os_Open = (\<lambda>path. Some (File path)),
      mp3_Decode = (\<lambda>f. if f = File ''track.mp3''
                          then Some (\<lparr>s_pos = 0, s_len = 441000\<rparr>,
                                     \<lparr>SampleRate = 44100, NumChannels = 2, Precision = 2\<rparr>)
                          else None)\<rparr>"

definition scenario_world :: world where
  "scenario_world = fst (Play scenario_env (New 44100) ''track.mp3'')"

lemma scenario_world_fields:
  "p_playing (player scenario_world) = True"
  "p_streamer (player scenario_world) = Some \<lparr>s_pos = 0, s_len = 441000\<rparr>"
  "p_format (player scenario_world) = \<lparr>SampleRate = 44100, NumChannels = 2, Precision = 2\<rparr>"
  "length (mixer scenario_world) = 1"
  "p_tap (player scenario_world) = Some (projr (NewTap 4096))"
  "p_ctrl (player scenario_world) = Some \<lparr>ctrl_Paused = False\<rparr>"
  by (simp_all add: scenario_world_def scenario_env_def Play_def Stop_def New_def Let_def)

text \<open>
  C1, as the claim states it, fails: while \<^verbatim>\<open>track.mp3\<close> is playing, a call of \<^verbatim>\<open>Play\<close>
  on a file that does not decode returns the decode error, and afterwards the player is
  no longer playing, it has lost its tap and its control, and the mixer is empty. The
  prior pipeline is gone.
\<close>

theorem Play_failure_counterexample:
  "snd (Play scenario_env scenario_world ''noise.mp3'') = Some DecodeError
   \<and> p_playing (player scenario_world)
   \<and> \<not> p_playing (player (fst (Play scenario_env scenario_world ''noise.mp3'')))
   \<and> p_tap (player scenario_world) \<noteq> None
   \<and> p_tap (player (fst (Play scenario_env scenario_world ''noise.mp3''))) = None
   \<and> mixer scenario_world \<noteq> []
   \<and> mixer (fst (Play scenario_env scenario_world ''noise.mp3'')) = []
   \<and> fst (Play scenario_env scenario_world ''noise.mp3'') \<noteq> scenario_world"
proof -
  have e: "snd (Play scenario_env scenario_world ''noise.mp3'') = Some DecodeError"
    by (simp add: Play_def scenario_env_def Let_def)
  then have s: "fst (Play scenario_env scenario_world ''noise.mp3'') = Stop scenario_world"
    by (intro Play_failure(1)) simp
  have m: "mixer scenario_world \<noteq> []"
    using scenario_world_fields(4) by auto
  have n: "Stop scenario_world \<noteq> scenario_world"
    using m Stop_fields(1) [of scenario_world] by auto
  show ?thesis
    using e m n by (simp add: s Stop_fields scenario_world_fields)
qed

text \<open>
  C1, amended. \<^verbatim>\<open>Play\<close> stops the player before it opens the source. If it then fails,
  which it does exactly when the source cannot be opened or cannot be decoded, the world
  is the one \<^verbatim>\<open>Stop\<close> leaves: the mixer is empty, so the audio callback reaches no stage,
  old or new; stream, file, tap and control are nil; the player is neither playing nor
  paused; volume, band gains and sample rate are as before. Nothing of a new pipeline has
  been built.
\<close>

theorem Play_failure_leaves_stopped:
  assumes "snd (Play e w path) \<noteq> None"
  shows "fst (Play e w path) = Stop w
     \<and> (os_Open e path = None \<or> (\<exists>f. os_Open e path = Some f \<and> mp3_Decode e f = None))
     \<and> mixer (fst (Play e w path)) = []
     \<and> p_streamer (player (fst (Play e w path))) = None
     \<and> p_file (player (fst (Play e w path))) = None
     \<and> p_tap (player (fst (Play e w path))) = None
     \<and> p_ctrl (player (fst (Play e w path))) = None
     \<and> p_playing (player (fst (Play e w path))) = False
     \<and> p_paused (player (fst (Play e w path))) = False
     \<and> p_volume (player (fst (Play e w path))) = p_volume (player w)
     \<and> p_eqBands (player (fst (Play e w path))) = p_eqBands (player w)
     \<and> p_sr (player (fst (Play e w path))) = p_sr (player w)"
  using Play_failure [OF assms] by (simp add: Stop_fields)

theorem Play_failure_leaves_stopped_witness:
  "snd (Play scenario_env scenario_world ''noise.mp3'') \<noteq> None
   \<and> fst (Play scenario_env scenario_world ''noise.mp3'') = Stop scenario_world
   \<and> mixer (fst (Play scenario_env scenario_world ''noise.mp3'')) = []
   \<and> p_eqBands (player (fst (Play scenario_env scenario_world ''noise.mp3'')))
       = replicate 10 0"
proof -
  have e: "snd (Play scenario_env scenario_world ''noise.mp3'') \<noteq> None"
    by (simp add: Play_def scenario_env_def Let_def)
  have b: "p_eqBands (player scenario_world) = replicate 10 0"
    by (simp add: scenario_world_def scenario_env_def Play_def Stop_def New_def Let_def)
  from Play_failure_leaves_stopped [OF e] e b show ?thesis by metis
qed

subsection \<open>Seeking\<close>

lemma wrap64_id: "- (2 ^ 63) \<le> x \<Longrightarrow> x < 2 ^ 63 \<Longrightarrow> wrap64 x = x"
  by (simp add: wrap64_def)

lemma sdiv_nonneg: "0 \<le> a \<Longrightarrow> 0 < b \<Longrightarrow> (a::int) sdiv b = a div b"
  by (simp add: signed_divide_int_def sgn_if)

lemma int_div_le_self0: "0 \<le> x \<Longrightarrow> (x::int) div k \<le> x"
  using int_div_le_self [of x k] by (cases "x = 0") simp_all

lemma SampleRate_D_nonneg:
  assumes "0 < sr" and "0 \<le> n" and "Second * n < 2 ^ 63"
  shows "SampleRate_D sr n = Inr (Second * n div sr)"
proof -
  have s: "0 \<le> Second * n" using assms(2) by (simp add: Second_def)
  then have w: "wrap64 (Second * n) = Second * n"
    using assms(3) by (intro wrap64_id) simp_all
  have d0: "0 \<le> Second * n div sr" using s assms(1) by (simp add: pos_imp_zdiv_nonneg_iff)
  have "Second * n div sr \<le> Second * n"
    using s by (rule int_div_le_self0)
  then have "wrap64 (Second * n div sr) = Second * n div sr"
    using d0 assms(3) by (intro wrap64_id) simp_all
  then show ?thesis
    using assms(1) s by (simp add: SampleRate_D_def w sdiv_nonneg)
qed

text \<open>The sample index \<^verbatim>\<open>Seek\<close> asks the stream for, after both clamps.\<close>

definition seek_target :: "Player \<Rightarrow> streamer \<Rightarrow> int \<Rightarrow> int" where
  "seek_target p s d =
     max 0 (min (s_len s - 1)
       (SampleRate_N (SampleRate (p_format p))
          (wrap64 (projr (SampleRate_D (SampleRate (p_format p)) (s_pos s)) + d))))"

lemma Seek_loaded:
  assumes "p_streamer p = Some s" and "SampleRate (p_format p) \<noteq> 0"
    and "0 < s_len s" and "s_len s < 2 ^ 63"
  shows "Seek p d = Inr (p\<lparr>p_streamer := Some (s\<lparr>s_pos := seek_target p s d\<rparr>)\<rparr>, None)"
    and "0 \<le> seek_target p s d" and "seek_target p s d < s_len s"
proof -
  have w: "wrap64 (s_len s - 1) = s_len s - 1"
    using assms(3,4) by (intro wrap64_id) simp_all
  show "0 \<le> seek_target p s d" by (simp add: seek_target_def)
  show "seek_target p s d < s_len s" using assms(3) by (simp add: seek_target_def)
  show "Seek p d = Inr (p\<lparr>p_streamer := Some (s\<lparr>s_pos := seek_target p s d\<rparr>)\<rparr>, None)"
    using assms
    by (auto simp: Seek_def SampleRate_D_def Let_def w seek_target_def streamer_Seek_def
        max_def min_def)
qed


text \<open>The 10-second track of the scenario, just loaded.\<close>

definition scenario_player :: Player where
  "scenario_player = player scenario_world"

text \<open>
  C2, as the claim states it, fails in its scenario: after loading the 10-second track at
  44100 Hz and \<^verbatim>\<open>Seek(+15s)\<close>, the stream stands at sample 440999, the last one, and
  \<^verbatim>\<open>Position()\<close> returns 9999977324 ns, not the 10 s that \<^verbatim>\<open>Duration()\<close> returns.
\<close>

text \<open>
  C2, amended. For every loaded track with a positive length and a positive sample rate
  (and a duration that fits 64 bits of nanoseconds), and every seek delta, \<^verbatim>\<open>Seek\<close>
  succeeds and puts the stream at the requested sample clamped into \<open>[0, Len - 1]\<close>;
  \<^verbatim>\<open>Position()\<close> is then not negative and not beyond \<^verbatim>\<open>Duration()\<close>, and strictly below
  it when the sample rate is at most \<open>10\<^sup>9\<close> Hz. A request past the end lands on the
  last sample, one sample short of the duration, never on the duration itself.
\<close>

theorem Seek_clamps:
  assumes "p_streamer p = Some s" and "0 < SampleRate (p_format p)"
    and "0 < s_len s" and "Second * s_len s < 2 ^ 63"
  shows "\<exists>k t dur. Seek p d = Inr (p\<lparr>p_streamer := Some (s\<lparr>s_pos := k\<rparr>)\<rparr>, None)
           \<and> k = seek_target p s d \<and> 0 \<le> k \<and> k < s_len s
           \<and> Position (p\<lparr>p_streamer := Some (s\<lparr>s_pos := k\<rparr>)\<rparr>) = Inr t
           \<and> Duration (p\<lparr>p_streamer := Some (s\<lparr>s_pos := k\<rparr>)\<rparr>) = Inr dur
           \<and> 0 \<le> t \<and> t \<le> dur
           \<and> (SampleRate (p_format p) \<le> Second \<longrightarrow> t < dur)"
proof -
  let ?sr = "SampleRate (p_format p)"
  let ?k = "seek_target p s d"
  let ?q = "p\<lparr>p_streamer := Some (s\<lparr>s_pos := ?k\<rparr>)\<rparr>"
  have len: "s_len s < 2 ^ 63"
    using assms(3,4) by (simp add: Second_def)
  have sk: "Seek p d = Inr (?q, None)" and k0: "0 \<le> ?k" and k1: "?k < s_len s"
    using Seek_loaded [OF assms(1) _ assms(3) len, of d] assms(2) by simp_all
  have "Second * ?k \<le> Second * s_len s"
    using k1 by (simp add: Second_def)
  then have kb: "Second * ?k < 2 ^ 63" using assms(4) by linarith
  have pos: "Position ?q = Inr (Second * ?k div ?sr)"
    using SampleRate_D_nonneg [OF assms(2) k0 kb] by (simp add: Position_def)
  have dur: "Duration ?q = Inr (Second * s_len s div ?sr)"
    using SampleRate_D_nonneg [OF assms(2) _ assms(4)] assms(3) by (simp add: Duration_def)
  have t0: "0 \<le> Second * ?k div ?sr"
    using k0 assms(2) by (simp add: pos_imp_zdiv_nonneg_iff Second_def)
  have t1: "Second * ?k div ?sr \<le> Second * s_len s div ?sr"
    using \<open>Second * ?k \<le> Second * s_len s\<close> assms(2) by (rule zdiv_mono1)
  have t2: "Second * ?k div ?sr < Second * s_len s div ?sr" if "?sr \<le> Second"
  proof -
    have "Second * ?k + ?sr \<le> Second * s_len s"
    proof -
      have "Second * ?k + Second = Second * (?k + 1)" by (simp add: algebra_simps)
      also have "\<dots> \<le> Second * s_len s"
        using k1 by (intro mult_left_mono) (simp_all add: Second_def)
      finally show ?thesis using that by linarith
    qed
    then have "(Second * ?k + ?sr) div ?sr \<le> Second * s_len s div ?sr"
      using assms(2) by (rule zdiv_mono1)
    moreover have "(Second * ?k + ?sr) div ?sr = Second * ?k div ?sr + 1"
      using assms(2) by simp
    ultimately show ?thesis by linarith
  qed
  from sk k0 k1 pos dur t0 t1 t2 show ?thesis by blast
qed



lemma scenario_player_fields:
  "p_streamer scenario_player = Some \<lparr>s_pos = 0, s_len = 441000\<rparr>"
  "SampleRate (p_format scenario_player) = 44100"
  by (simp_all add: scenario_player_def scenario_world_fields)

lemma scenario_arith:
  "SampleRate_D 44100 0 = Inr 0"
  "SampleRate_D 44100 440999 = Inr 9999977324"
  "SampleRate_D 44100 441000 = Inr (10 * Second)"
  "SampleRate_N 44100 (wrap64 (15 * Second)) = 661500"
  "SampleRate_N 44100 (wrap64 (- (3 * Second))) = - 132300"
  by (simp_all add: SampleRate_D_def SampleRate_N_def wrap64_def Second_def
      signed_divide_int_def)

lemma scenario_targets:
  "seek_target scenario_player \<lparr>s_pos = 0, s_len = 441000\<rparr> (15 * Second) = 440999"
  "seek_target scenario_player \<lparr>s_pos = 0, s_len = 441000\<rparr> (- (3 * Second)) = 0"
  by (simp_all add: seek_target_def scenario_player_fields scenario_arith)

theorem Seek_scenario_counterexample:
  "Duration scenario_player = Inr (10 * Second)
   \<and> Seek scenario_player (15 * Second)
       = Inr (scenario_player\<lparr>p_streamer := Some \<lparr>s_pos = 440999, s_len = 441000\<rparr>\<rparr>, None)
   \<and> Position (scenario_player\<lparr>p_streamer := Some \<lparr>s_pos = 440999, s_len = 441000\<rparr>\<rparr>)
       = Inr 9999977324
   \<and> (9999977324 :: int) \<noteq> 10 * Second"
proof -
  have 1: "Duration scenario_player = Inr (10 * Second)"
    by (simp add: Duration_def scenario_player_fields scenario_arith)
  have "Seek scenario_player (15 * Second)
      = Inr (scenario_player\<lparr>p_streamer := Some (\<lparr>s_pos = 0, s_len = 441000\<rparr>\<lparr>s_pos :=
          seek_target scenario_player \<lparr>s_pos = 0, s_len = 441000\<rparr> (15 * Second)\<rparr>)\<rparr>, None)"
    by (rule Seek_loaded(1)) (simp_all add: scenario_player_fields)
  then have 2: "Seek scenario_player (15 * Second)
      = Inr (scenario_player\<lparr>p_streamer := Some \<lparr>s_pos = 440999, s_len = 441000\<rparr>\<rparr>, None)"
    by (simp only: scenario_targets) simp
  have 3: "Position (scenario_player\<lparr>p_streamer := Some \<lparr>s_pos = 440999, s_len = 441000\<rparr>\<rparr>)
      = Inr 9999977324"
    by (simp add: Position_def scenario_player_fields scenario_arith)
  have 4: "(9999977324 :: int) \<noteq> 10 * Second" by (simp add: Second_def)
  from 1 2 3 4 show ?thesis by blast
qed

theorem Seek_clamps_witness:
  "p_streamer scenario_player = Some \<lparr>s_pos = 0, s_len = 441000\<rparr>
   \<and> 0 < SampleRate (p_format scenario_player)
   \<and> 0 < s_len \<lparr>s_pos = 0, s_len = 441000\<rparr>
   \<and> Second * s_len \<lparr>s_pos = 0, s_len = 441000\<rparr> < 2 ^ 63
   \<and> (\<exists>t dur. Seek scenario_player (- (3 * Second))
           = Inr (scenario_player\<lparr>p_streamer := Some \<lparr>s_pos = 0, s_len = 441000\<rparr>\<rparr>, None)
        \<and> Position (scenario_player\<lparr>p_streamer := Some \<lparr>s_pos = 0, s_len = 441000\<rparr>\<rparr>) = Inr t
        \<and> Duration (scenario_player\<lparr>p_streamer := Some \<lparr>s_pos = 0, s_len = 441000\<rparr>\<rparr>) = Inr dur
        \<and> 0 \<le> t \<and> t \<le> dur)"
proof -
  have h: "p_streamer scenario_player = Some \<lparr>s_pos = 0, s_len = 441000\<rparr>"
    "0 < SampleRate (p_format scenario_player)"
    "0 < s_len \<lparr>s_pos = 0, s_len = 441000\<rparr>"
    "Second * s_len \<lparr>s_pos = 0, s_len = 441000\<rparr> < 2 ^ 63"
    by (simp_all add: scenario_player_fields Second_def)
  from Seek_clamps [OF h, of "- (3 * Second)"] obtain k t dur where
    a: "Seek scenario_player (- (3 * Second))
          = Inr (scenario_player\<lparr>p_streamer := Some (\<lparr>s_pos = 0, s_len = 441000\<rparr>\<lparr>s_pos := k\<rparr>)\<rparr>, None)"
       "k = seek_target scenario_player \<lparr>s_pos = 0, s_len = 441000\<rparr> (- (3 * Second))"
       "Position (scenario_player\<lparr>p_streamer := Some (\<lparr>s_pos = 0, s_len = 441000\<rparr>\<lparr>s_pos := k\<rparr>)\<rparr>) = Inr t"
       "Duration (scenario_player\<lparr>p_streamer := Some (\<lparr>s_pos = 0, s_len = 441000\<rparr>\<lparr>s_pos := k\<rparr>)\<rparr>) = Inr dur"
       "0 \<le> t" "t \<le> dur"
    by blast
  have k: "k = 0" using a(2) by (simp only: scenario_targets)
  have "\<exists>t dur. Seek scenario_player (- (3 * Second))
           = Inr (scenario_player\<lparr>p_streamer := Some \<lparr>s_pos = 0, s_len = 441000\<rparr>\<rparr>, None)
        \<and> Position (scenario_player\<lparr>p_streamer := Some \<lparr>s_pos = 0, s_len = 441000\<rparr>\<rparr>) = Inr t
        \<and> Duration (scenario_player\<lparr>p_streamer := Some \<lparr>s_pos = 0, s_len = 441000\<rparr>\<rparr>) = Inr dur
        \<and> 0 \<le> t \<and> t \<le> dur"
    using a(1,3,4,5,6) unfolding k by auto
  with h show ?thesis by blast
qed

end
